theory Spec2Isabelle
  imports Complex_Main "HOL-Library.Sublist"
begin

section \<open>Machine integers\<close>

text \<open>
  Go's \<^verbatim>\<open>int64\<close>, \<^verbatim>\<open>time.Duration\<close> and (on the 64-bit platforms the model fixes)
  \<^verbatim>\<open>int\<close> are 64-bit two's complement integers. They are modelled as \<open>int\<close> with the
  wrap-around written out: every arithmetic result goes through \<open>wrap64\<close>.
\<close>

definition minInt64 :: int where
  "minInt64 = - (2 ^ 63)"

definition maxInt64 :: int where
  "maxInt64 = 2 ^ 63 - 1"

definition in_int64 :: "int \<Rightarrow> bool" where
  "in_int64 x = (minInt64 \<le> x \<and> x \<le> maxInt64)"

definition wrap64 :: "int \<Rightarrow> int" where
  "wrap64 x = (x + 2 ^ 63) mod 2 ^ 64 - 2 ^ 63"

text \<open>Go's integer division and remainder truncate towards zero.\<close>

definition quot :: "int \<Rightarrow> int \<Rightarrow> int" where
  "quot a b = (if (a < 0) = (b < 0) then \<bar>a\<bar> div \<bar>b\<bar> else - (\<bar>a\<bar> div \<bar>b\<bar>))"

definition rem :: "int \<Rightarrow> int \<Rightarrow> int" where
  "rem a b = (if a < 0 then - (\<bar>a\<bar> mod \<bar>b\<bar>) else \<bar>a\<bar> mod \<bar>b\<bar>)"

section \<open>Binary64 floating point\<close>

text \<open>
  A \<^verbatim>\<open>float64\<close> is a finite binary64 number (its exact rational value; \<open>Finite 0\<close> is
  \<open>+0\<close>), the negative zero, an infinity or a NaN. Arithmetic computes the exact rational
  result and rounds it to the nearest binary64 number, ties to even, as IEEE 754 does.
\<close>

datatype f64 = Finite rat | NegZero | PInf | NInf | NaN

definition pow2 :: "int \<Rightarrow> rat" where
  "pow2 e = (if 0 \<le> e then of_int (2 ^ nat e) else 1 / of_int (2 ^ nat (- e)))"

function bitlen :: "int \<Rightarrow> int" where
  "bitlen n = (if n \<le> 0 then 0 else 1 + bitlen (n div 2))"
  by pat_completeness auto
termination
  by (relation "measure nat") auto

declare bitlen.simps [simp del]

text \<open>\<open>ilog2 q\<close> is \<open>\<lfloor>log\<^sub>2 q\<rfloor>\<close> for a positive rational \<open>q\<close>.\<close>

definition ilog2 :: "rat \<Rightarrow> int" where
  "ilog2 q = (let (n, d) = quotient_of q;
                  e = bitlen n - bitlen d
              in if pow2 e \<le> q then e else e - 1)"

definition round_half_even :: "rat \<Rightarrow> int" where
  "round_half_even x = (let f = \<lfloor>x\<rfloor>; r = x - of_int f
                        in if r < 1 / 2 then f
                           else if 1 / 2 < r then f + 1
                           else if even f then f else f + 1)"

text \<open>
  Rounding: \<open>e\<close> is the exponent of \<open>\<bar>q\<bar>\<close> (at least that of the subnormal numbers),
  \<open>u\<close> the distance between neighbouring binary64 numbers at that exponent, and \<open>m\<close>
  the significand, at most \<open>2\<^sup>5\<^sup>3\<close>. The result overflows when it reaches \<open>2\<^sup>1\<^sup>0\<^sup>2\<^sup>4\<close>.
\<close>

definition f64_round :: "rat \<Rightarrow> f64" where
  "f64_round q =
     (if q = 0 then Finite 0
      else let a = \<bar>q\<bar>;
               e = max (ilog2 a) (- 1022);
               u = pow2 (e - 52);
               m = round_half_even (a / u)
           in if 1023 < e \<or> (e = 1023 \<and> 2 ^ 53 \<le> m) then (if 0 < q then PInf else NInf)
              else if m = 0 then (if 0 < q then Finite 0 else NegZero)
              else Finite (if 0 < q then of_int m * u else - (of_int m * u)))"

definition f64_is_neg :: "f64 \<Rightarrow> bool" where
  "f64_is_neg x = (case x of Finite q \<Rightarrow> q < 0 | NegZero \<Rightarrow> True | NInf \<Rightarrow> True | _ \<Rightarrow> False)"

text \<open>The rational value of a finite number (both zeros have the value 0).\<close>

definition f64_val :: "f64 \<Rightarrow> rat option" where
  "f64_val x = (case x of Finite q \<Rightarrow> Some q | NegZero \<Rightarrow> Some 0 | _ \<Rightarrow> None)"

definition f64_signed_zero :: "bool \<Rightarrow> f64" where
  "f64_signed_zero neg = (if neg then NegZero else Finite 0)"

definition f64_signed_inf :: "bool \<Rightarrow> f64" where
  "f64_signed_inf neg = (if neg then NInf else PInf)"

definition f64_of_int :: "int \<Rightarrow> f64" where
  "f64_of_int i = f64_round (of_int i)"

definition f64_mul :: "f64 \<Rightarrow> f64 \<Rightarrow> f64" where
  "f64_mul x y =
     (let neg = (f64_is_neg x \<noteq> f64_is_neg y) in
      if x = NaN \<or> y = NaN then NaN
      else case (f64_val x, f64_val y) of
        (Some a, Some b) \<Rightarrow> if a * b = 0 then f64_signed_zero neg else f64_round (a * b)
      | (Some a, None) \<Rightarrow> if a = 0 then NaN else f64_signed_inf neg
      | (None, Some b) \<Rightarrow> if b = 0 then NaN else f64_signed_inf neg
      | (None, None) \<Rightarrow> f64_signed_inf neg)"

definition f64_div :: "f64 \<Rightarrow> f64 \<Rightarrow> f64" where
  "f64_div x y =
     (let neg = (f64_is_neg x \<noteq> f64_is_neg y) in
      if x = NaN \<or> y = NaN then NaN
      else case (f64_val x, f64_val y) of
        (Some a, Some b) \<Rightarrow>
          if b = 0 then (if a = 0 then NaN else f64_signed_inf neg)
          else if a = 0 then f64_signed_zero neg
          else f64_round (a / b)
      | (Some a, None) \<Rightarrow> f64_signed_zero neg
      | (None, Some b) \<Rightarrow> f64_signed_inf neg
      | (None, None) \<Rightarrow> NaN)"

definition f64_add :: "f64 \<Rightarrow> f64 \<Rightarrow> f64" where
  "f64_add x y =
     (if x = NaN \<or> y = NaN then NaN
      else case (f64_val x, f64_val y) of
        (Some a, Some b) \<Rightarrow>
          if a + b = 0 then f64_signed_zero (x = NegZero \<and> y = NegZero)
          else f64_round (a + b)
      | (Some a, None) \<Rightarrow> y
      | (None, Some b) \<Rightarrow> x
      | (None, None) \<Rightarrow> if x = y then x else NaN)"

text \<open>Comparisons: a NaN is unordered and unequal to everything; the two zeros are equal.\<close>

definition f64_lt :: "f64 \<Rightarrow> f64 \<Rightarrow> bool" where
  "f64_lt x y =
     (if x = NaN \<or> y = NaN then False
      else case (f64_val x, f64_val y) of
        (Some a, Some b) \<Rightarrow> a < b
      | (Some a, None) \<Rightarrow> y = PInf
      | (None, Some b) \<Rightarrow> x = NInf
      | (None, None) \<Rightarrow> x = NInf \<and> y = PInf)"

definition f64_neq :: "f64 \<Rightarrow> f64 \<Rightarrow> bool" where
  "f64_neq x y =
     (if x = NaN \<or> y = NaN then True
      else case (f64_val x, f64_val y) of
        (Some a, Some b) \<Rightarrow> a \<noteq> b
      | (None, None) \<Rightarrow> x \<noteq> y
      | _ \<Rightarrow> True)"

text \<open>
  Truncation of a rational towards zero, and the conversion \<^verbatim>\<open>int64(x)\<close> of a float. Go
  leaves the result of the conversion to the implementation when the truncated value is
  not an \<^verbatim>\<open>int64\<close> (and for infinities and NaNs); the model takes that choice as the
  parameter \<open>impl\<close>.
\<close>

definition trunc_rat :: "rat \<Rightarrow> int" where
  "trunc_rat q = (if 0 \<le> q then \<lfloor>q\<rfloor> else \<lceil>q\<rceil>)"

definition f64_to_int64 :: "(f64 \<Rightarrow> int) \<Rightarrow> f64 \<Rightarrow> int" where
  "f64_to_int64 impl x =
     (case f64_val x of
        Some q \<Rightarrow> if in_int64 (trunc_rat q) then trunc_rat q else wrap64 (impl x)
      | None \<Rightarrow> wrap64 (impl x))"

text \<open>The numbers that are not negative: the positive infinity and the finite ones from \<open>+0\<close> on.\<close>

definition f64_nonneg :: "f64 \<Rightarrow> bool" where
  "f64_nonneg x = (x = PInf \<or> (\<exists>v. x = Finite v \<and> 0 \<le> v))"

section \<open>Time\<close>

text \<open>
  A \<^verbatim>\<open>time.Duration\<close> is an \<^verbatim>\<open>int64\<close> count of nanoseconds. A \<^verbatim>\<open>time.Time\<close> is modelled
  by its position on the timeline (nanoseconds since January 1 of year 1, the zero
  \<^verbatim>\<open>Time\<close>) and by the wall-clock reading that \<^verbatim>\<open>Format\<close> prints.
\<close>

definition Millisecond :: int where
  "Millisecond = 1000000"

definition Second :: int where
  "Second = 1000000000"

definition Minute :: int where
  "Minute = 60 * Second"

record Time =
  t_ns :: int
  t_year :: int
  t_month :: int
  t_day :: int
  t_hour :: int
  t_minute :: int
  t_second :: int

definition zero_Time :: Time where
  "zero_Time = \<lparr>t_ns = 0, t_year = 1, t_month = 1, t_day = 1,
                 t_hour = 0, t_minute = 0, t_second = 0\<rparr>"

text \<open>\<^verbatim>\<open>t.Sub(u)\<close>: the difference, saturated at the largest and smallest \<^verbatim>\<open>Duration\<close>.\<close>

definition time_Sub :: "Time \<Rightarrow> Time \<Rightarrow> int" where
  "time_Sub t u = (let d = t_ns t - t_ns u
                   in if d < minInt64 then minInt64
                      else if maxInt64 < d then maxInt64 else d)"

text \<open>
  \<^verbatim>\<open>d.Seconds()\<close> is \<^verbatim>\<open>float64(d / Second) + float64(d % Second) / 1e9\<close>, and
  \<^verbatim>\<open>d.Minutes()\<close> is \<^verbatim>\<open>float64(d / Minute) + float64(d % Minute) / (60 * 1e9)\<close>.
\<close>

definition dur_Seconds :: "int \<Rightarrow> f64" where
  "dur_Seconds d =
     f64_add (f64_of_int (quot d Second)) (f64_div (f64_of_int (rem d Second)) (Finite 1000000000))"

definition dur_Minutes :: "int \<Rightarrow> f64" where
  "dur_Minutes d =
     f64_add (f64_of_int (quot d Minute)) (f64_div (f64_of_int (rem d Minute)) (Finite 60000000000))"

section \<open>The report snapshot\<close>

record Report =
  Now :: Time
  StartedAt :: Time
  DT :: int
  Total :: int
  Done :: int
  Left :: int
  Ratio :: f64
  PercentInt :: int
  PercentFloat :: f64
  Elapsed :: int
  ETA :: int
  RPSAvg :: f64
  RPSInst :: f64
  RPMAvg :: f64

text \<open>The zero value \<^verbatim>\<open>Report{}\<close>.\<close>

definition zero_Report :: Report where
  "zero_Report = \<lparr>Now = zero_Time, StartedAt = zero_Time, DT = 0, Total = 0, Done = 0,
                   Left = 0, Ratio = Finite 0, PercentInt = 0, PercentFloat = Finite 0,
                   Elapsed = 0, ETA = 0, RPSAvg = Finite 0, RPSInst = Finite 0,
                   RPMAvg = Finite 0\<rparr>"

section \<open>The progress tracker\<close>

text \<open>
  The tracker of \<^verbatim>\<open>src/unnamed/part_002\<close>. The field \<^verbatim>\<open>done\<close> is called \<open>done_items\<close>
  here; \<open>reporter\<close> holds the state of the reporter the tracker points to, and \<open>doneCh\<close>
  the identity of its completion channel (\<open>None\<close> is the \<^verbatim>\<open>nil\<close> channel, which a tracker
  has that does not come from \<^verbatim>\<open>New\<close>). The type of the reporter is a parameter, as
  the field has the interface type \<^verbatim>\<open>Reporter\<close>.
\<close>

record 'r Progress =
  total :: int
  done_items :: int
  startedAt :: Time
  reportTime :: int
  lastReportedDone :: int
  lastReportedAt :: Time
  reporter :: 'r
  doneCh :: "nat option"

datatype error = Panic string | NilDereference | Unsupported string

text \<open>
  \<^verbatim>\<open>New(total)\<close> panics unless \<open>0 < total\<close>. The default report time (a package variable),
  the default reporter and the freshly made channel are arguments of the model.
\<close>

definition New :: "int \<Rightarrow> 'r \<Rightarrow> nat \<Rightarrow> int \<Rightarrow> error + 'r Progress" where
  "New DefaultReportTime defaultReporter ch tot =
     (if tot \<le> 0 then Inl (Panic ''total should be greater than 0'')
      else Inr \<lparr>total = tot, done_items = 0, startedAt = zero_Time,
                reportTime = DefaultReportTime, lastReportedDone = 0,
                lastReportedAt = zero_Time, reporter = defaultReporter, doneCh = Some ch\<rparr>)"

definition WithReporter :: "'r Progress \<Rightarrow> 's \<Rightarrow> 's Progress" where
  "WithReporter p r =
     \<lparr>total = total p, done_items = done_items p, startedAt = startedAt p,
      reportTime = reportTime p, lastReportedDone = lastReportedDone p,
      lastReportedAt = lastReportedAt p, reporter = r, doneCh = doneCh p\<rparr>"

text \<open>\<^verbatim>\<open>Add(done)\<close>: an atomic 64-bit addition, which wraps around.\<close>

definition Add :: "int \<Rightarrow> 'r Progress \<Rightarrow> 'r Progress" where
  "Add n p = p\<lparr>done_items := wrap64 (done_items p + n)\<rparr>"

text \<open>
  \<^verbatim>\<open>Report()\<close> of \<^verbatim>\<open>src/unnamed/part_002\<close>. The reading of the clock, \<open>now\<close>, is an
  argument; the result is the snapshot and the tracker with its bookkeeping fields
  updated (the deferred function).
\<close>

definition Progress_Report :: "(f64 \<Rightarrow> int) \<Rightarrow> Time \<Rightarrow> 'r Progress \<Rightarrow> Report \<times> 'r Progress" where
  "Progress_Report impl now p =
     (if total p = 0 then (zero_Report, p)
      else let dt = time_Sub now (lastReportedAt p);
               d = done_items p;
               ratio = f64_div (f64_of_int d) (f64_of_int (total p));
               elapsed = time_Sub now (startedAt p);
               rps = f64_div (f64_of_int d) (dur_Seconds (time_Sub now (startedAt p)));
               eta = (if f64_neq rps (Finite 0)
                      then wrap64 (f64_to_int64 impl
                             (f64_div (f64_of_int (wrap64 (total p - d))) rps) * Second)
                      else 0)
           in (\<lparr>Now = now,
                StartedAt = startedAt p,
                DT = dt,
                Total = total p,
                Done = d,
                Left = wrap64 (total p - d),
                Ratio = ratio,
                PercentInt = f64_to_int64 impl (f64_mul ratio (Finite 100)),
                PercentFloat = f64_mul ratio (Finite 100),
                Elapsed = elapsed,
                ETA = eta,
                RPSAvg = rps,
                RPSInst = f64_div (f64_of_int (wrap64 (d - lastReportedDone p))) (dur_Seconds dt),
                RPMAvg = f64_div (f64_of_int d) (dur_Minutes (time_Sub now (startedAt p)))\<rparr>,
               p\<lparr>lastReportedDone := d, lastReportedAt := now\<rparr>))"

text \<open>
  The tracker of \<^verbatim>\<open>src/gopv.go\<close>, which has no completion channel, and its
  \<^verbatim>\<open>Add\<close> and \<^verbatim>\<open>Report\<close>. Its fields carry the suffix \<open>0\<close>.
\<close>

record 'r Progress0 =
  total0 :: int
  done0 :: int
  startedAt0 :: Time
  reportTime0 :: int
  lastReportedDone0 :: int
  lastReportedAt0 :: Time
  reporter0 :: 'r

definition Add0 :: "int \<Rightarrow> 'r Progress0 \<Rightarrow> 'r Progress0" where
  "Add0 n p = p\<lparr>done0 := wrap64 (done0 p + n)\<rparr>"

definition Progress0_Report :: "(f64 \<Rightarrow> int) \<Rightarrow> Time \<Rightarrow> 'r Progress0 \<Rightarrow> Report \<times> 'r Progress0" where
  "Progress0_Report impl now p =
     (if total0 p = 0 then (zero_Report, p)
      else let dt = time_Sub now (lastReportedAt0 p);
               d = done0 p;
               ratio = f64_div (f64_of_int d) (f64_of_int (total0 p));
               elapsed = time_Sub now (startedAt0 p);
               rps = f64_div (f64_of_int d) (dur_Seconds (time_Sub now (startedAt0 p)));
               eta = (if f64_neq rps (Finite 0)
                      then wrap64 (f64_to_int64 impl
                             (f64_div (f64_of_int (wrap64 (total0 p - d))) rps) * Second)
                      else 0)
           in (\<lparr>Now = now,
                StartedAt = startedAt0 p,
                DT = dt,
                Total = total0 p,
                Done = d,
                Left = wrap64 (total0 p - d),
                Ratio = ratio,
                PercentInt = f64_to_int64 impl (f64_mul ratio (Finite 100)),
                PercentFloat = f64_mul ratio (Finite 100),
                Elapsed = elapsed,
                ETA = eta,
                RPSAvg = rps,
                RPSInst = f64_div (f64_of_int (wrap64 (d - lastReportedDone0 p))) (dur_Seconds dt),
                RPMAvg = f64_div (f64_of_int d) (dur_Minutes (time_Sub now (startedAt0 p)))\<rparr>,
               p\<lparr>lastReportedDone0 := d, lastReportedAt0 := now\<rparr>))"

text \<open>The tracker state the two versions have in common.\<close>

definition strip :: "'r Progress \<Rightarrow> 'r Progress0" where
  "strip p = \<lparr>total0 = total p, done0 = done_items p, startedAt0 = startedAt p,
              reportTime0 = reportTime p, lastReportedDone0 = lastReportedDone p,
              lastReportedAt0 = lastReportedAt p, reporter0 = reporter p\<rparr>"

section \<open>Strings\<close>

text \<open>
  A Go string is a sequence of bytes, here a \<open>string\<close>. Errors are values: a function
  that can panic returns \<open>error + 'a\<close>, and \<open>bind_err\<close> sequences two of them.

  A method that panics has changed its receiver up to the panic, and the deferred
  functions of its callers see that state. Such a method returns \<open>error \<times> 's + 's\<close>: the
  state it leaves, alone or with the panic. In \<open>bind_at st m f\<close> a panic of the step \<open>m\<close>
  leaves the state \<open>st\<close>.
\<close>

definition bind_err :: "'e + 'a \<Rightarrow> ('a \<Rightarrow> 'e + 'b) \<Rightarrow> 'e + 'b" where
  "bind_err m f = (case m of Inl e \<Rightarrow> Inl e | Inr x \<Rightarrow> f x)"

definition bind_at :: "'s \<Rightarrow> error + 'a \<Rightarrow> ('a \<Rightarrow> error \<times> 's + 'b) \<Rightarrow> error \<times> 's + 'b" where
  "bind_at st m f = (case m of Inl e \<Rightarrow> Inl (e, st) | Inr x \<Rightarrow> f x)"

text \<open>The character of a decimal digit \<open>d\<close>, from 0 to 9.\<close>

definition digit_char :: "int \<Rightarrow> char" where
  "digit_char d = (if 0 \<le> d \<and> d < 10 then ''0123456789'' ! nat d else CHR ''0'')"

function udigits :: "int \<Rightarrow> string" where
  "udigits n = (if n < 10 then [digit_char n] else udigits (n div 10) @ [digit_char (n mod 10)])"
  by pat_completeness auto
termination
  by (relation "measure nat") auto

declare udigits.simps [simp del]

text \<open>\<^verbatim>\<open>strconv.Itoa\<close>, also the \<^verbatim>\<open>%d\<close> of an integer.\<close>

definition Itoa :: "int \<Rightarrow> string" where
  "Itoa n = (if n < 0 then CHR ''-'' # udigits (- n) else udigits n)"

text \<open>
  \<^verbatim>\<open>strings.ReplaceAll(s, old, new)\<close>: the occurrences of \<open>old\<close> are found from left to
  right, without overlap. For the empty \<open>old\<close>, which the program never passes, Go puts
  \<open>new\<close> before every character and at the end (the model does it for every byte).
\<close>

function replace_from :: "string \<Rightarrow> string \<Rightarrow> string \<Rightarrow> string" where
  "replace_from old new s =
     (if old = [] \<or> s = [] then s
      else if prefix old s then new @ replace_from old new (drop (length old) s)
      else hd s # replace_from old new (tl s))"
  by pat_completeness auto
termination
  by (relation "measure (\<lambda>(old, new, s). length s)") (auto simp: neq_Nil_conv)

declare replace_from.simps [simp del]

definition ReplaceAll :: "string \<Rightarrow> string \<Rightarrow> string \<Rightarrow> string" where
  "ReplaceAll s old new =
     (if old = new then s
      else if old = [] then new @ concat (map (\<lambda>c. c # new) s)
      else replace_from old new s)"

text \<open>
  \<^verbatim>\<open>strings.Repeat(s, count)\<close> panics on a negative count and when the length of the
  result overflows. For a result that is not empty it then allocates the whole result at
  once, and the runtime refuses a block of more than \<open>maxAlloc\<close> bytes with a panic; on
  amd64 (48 bits of heap addresses) that is \<open>2\<^sup>4\<^sup>8\<close>. A block within that limit that the
  machine cannot provide ends the program with the fatal error of the runtime, as for any
  other allocation of the program; the model takes the machine to have the memory.
  (Versions of the library differ in which of the two panics a count above \<open>2\<^sup>6\<^sup>2\<close> gets.)
\<close>

definition maxAlloc :: int where
  "maxAlloc = 2 ^ 48"

definition Repeat :: "string \<Rightarrow> int \<Rightarrow> error + string" where
  "Repeat s count =
     (if count = 0 then Inr []
      else if count = 1 then Inr s
      else if count < 0 then Inl (Panic ''strings: negative Repeat count'')
      else if maxInt64 < int (length s) * count
        then Inl (Panic ''strings: Repeat output length overflow'')
      else if s = [] then Inr []
      else if maxAlloc < int (length s) * count
        then Inl (Panic ''runtime error: makeslice: len out of range'')
      else Inr (concat (replicate (nat count) s)))"

section \<open>The text reporter\<close>

text \<open>
  \<open>output_w\<close> (the field \<^verbatim>\<open>output\<close>) names the \<^verbatim>\<open>io.Writer\<close> the reporter writes to, and \<open>writer\<close> is the
  pointer to its \<^verbatim>\<open>bufio.Writer\<close> (\<open>None\<close> is \<^verbatim>\<open>nil\<close>); both refer into the \<open>world\<close>
  below. The first four fields are the configuration, the last three the runtime state.
\<close>

record TextReporter =
  legend :: string
  floatPrecision :: int
  output_w :: nat
  pbWidth :: int
  legendCompiled :: string
  writer :: "nat option"
  lastLegendLength :: int

definition TextReporterLegendDefault :: string where
  "TextReporterLegendDefault =
     ''[{now}] - working ({done}/{total}) done {percent_int}%%, RPS {rps_avg}, elapsed {elapsed}, ETA {eta}'' @ [CHR 0x0D]"

definition TextReporterLegendProgressBar :: string where
  "TextReporterLegendProgressBar = ''{progress_bar} {percent_int}%%, {rps_avg} RPS, {eta} ETA'' @ [CHR 0x0D]"

definition TextReporterDefaultFloatPrecision :: int where
  "TextReporterDefaultFloatPrecision = 2"

definition TextReporterDefaultProgressBarWidth :: int where
  "TextReporterDefaultProgressBarWidth = 80"

text \<open>\<^verbatim>\<open>NewTextReporter()\<close>; \<open>stderr\<close> names the standard error stream.\<close>

definition NewTextReporter :: "nat \<Rightarrow> TextReporter" where
  "NewTextReporter stderr =
     \<lparr>legend = TextReporterLegendDefault,
      floatPrecision = TextReporterDefaultFloatPrecision,
      output_w = stderr,
      pbWidth = TextReporterDefaultProgressBarWidth,
      legendCompiled = [],
      writer = None,
      lastLegendLength = 0\<rparr>"

text \<open>\<^verbatim>\<open>clone()\<close> copies the whole struct: \<^verbatim>\<open>cp := *r; return &cp\<close>.\<close>

definition clone :: "TextReporter \<Rightarrow> TextReporter" where
  "clone r =
     \<lparr>legend = legend r,
      floatPrecision = floatPrecision r,
      output_w = output_w r,
      pbWidth = pbWidth r,
      legendCompiled = legendCompiled r,
      writer = writer r,
      lastLegendLength = lastLegendLength r\<rparr>"

text \<open>
  The builder methods return the new reporter; the receiver is not assigned to, so the
  original is the argument \<open>r\<close>, as it was.
\<close>

definition WithLegend :: "string \<Rightarrow> TextReporter \<Rightarrow> TextReporter" where
  "WithLegend l r = (let ret = clone r in ret\<lparr>legend := l\<rparr>)"

definition WithFloatPrecision :: "int \<Rightarrow> TextReporter \<Rightarrow> TextReporter" where
  "WithFloatPrecision fp r = (let ret = clone r in ret\<lparr>floatPrecision := fp\<rparr>)"

definition WithOutput :: "nat \<Rightarrow> TextReporter \<Rightarrow> TextReporter" where
  "WithOutput out r = (let ret = clone r in ret\<lparr>output_w := out\<rparr>)"

definition WithProgressBarWidth :: "int \<Rightarrow> TextReporter \<Rightarrow> TextReporter" where
  "WithProgressBarWidth width r = (let ret = clone r in ret\<lparr>pbWidth := width\<rparr>)"

text \<open>\<^verbatim>\<open>compileLegend\<close>: sixteen replacements, in the order of the source.\<close>

definition compileLegend :: "string \<Rightarrow> int \<Rightarrow> string" where
  "compileLegend format0 fp =
     (let format = ReplaceAll format0 ''{now}'' ''%[1]s'';
          format = ReplaceAll format ''{started_at}'' ''%[2]s'';
          format = ReplaceAll format ''{dt}'' ''%[3]s'';
          format = ReplaceAll format ''{total}'' ''%[4]d'';
          format = ReplaceAll format ''{done}'' ''%[5]d'';
          format = ReplaceAll format ''{left}'' ''%[6]d'';
          format = ReplaceAll format ''{ratio}'' ''%.{float_precision}[7]f'';
          format = ReplaceAll format ''{percent_int}'' ''%[8]d'';
          format = ReplaceAll format ''{percent_float}'' ''%.{float_precision}[9]f'';
          format = ReplaceAll format ''{elapsed}'' ''%[10]s'';
          format = ReplaceAll format ''{eta}'' ''%[11]s'';
          format = ReplaceAll format ''{rps_avg}'' ''%.{float_precision}[12]f'';
          format = ReplaceAll format ''{rps_inst}'' ''%.{float_precision}[13]f'';
          format = ReplaceAll format ''{rpm}'' ''%.{float_precision}[14]f'';
          format = ReplaceAll format ''{progress_bar}'' ''%[15]s'';
          format = ReplaceAll format ''{float_precision}'' (Itoa fp)
      in format)"

text \<open>\<^verbatim>\<open>renderProgressBar\<close>; the two calls of \<^verbatim>\<open>strings.Repeat\<close> can panic.\<close>

definition renderProgressBar :: "(f64 \<Rightarrow> int) \<Rightarrow> TextReporter \<Rightarrow> Report \<Rightarrow> error + string" where
  "renderProgressBar impl r report =
     (let ratio = (if f64_lt (Ratio report) (Finite 0) then Finite 0 else Ratio report);
          progressBarWidth = wrap64 (pbWidth r - 2)
      in if progressBarWidth \<le> 0 then Inr []
         else let fillChars0 = f64_to_int64 impl (f64_mul ratio (f64_of_int progressBarWidth));
                  fillChars = (if progressBarWidth < fillChars0 then progressBarWidth else fillChars0);
                  fillSpaces0 = wrap64 (progressBarWidth - fillChars);
                  fillSpaces = (if fillSpaces0 < 0 then 0 else fillSpaces0)
              in bind_err (Repeat ''#'' fillChars) (\<lambda>hashes.
                 bind_err (Repeat ''-'' fillSpaces) (\<lambda>dashes.
                 Inr (''['' @ hashes @ dashes @ '']''))))"

section \<open>Formatting durations and timestamps\<close>

text \<open>\<^verbatim>\<open>d.Round(m)\<close>, with the unsigned comparison of \<^verbatim>\<open>lessThanHalf\<close>.\<close>

definition lessThanHalf :: "int \<Rightarrow> int \<Rightarrow> bool" where
  "lessThanHalf x y = ((x mod 2 ^ 64 + x mod 2 ^ 64) mod 2 ^ 64 < y mod 2 ^ 64)"

definition dur_Round :: "int \<Rightarrow> int \<Rightarrow> int" where
  "dur_Round d m =
     (if m \<le> 0 then d
      else let r = rem d m
           in if d < 0
              then (let r' = wrap64 (- r)
                    in if lessThanHalf r' m then wrap64 (d + r')
                       else let d1 = wrap64 (d - m + r')
                            in if d1 < d then d1 else minInt64)
              else if lessThanHalf r m then wrap64 (d - r)
              else let d1 = wrap64 (d + m - r)
                   in if d < d1 then d1 else maxInt64)"

text \<open>
  \<^verbatim>\<open>fmtFrac\<close> of package \<^verbatim>\<open>time\<close>: the fraction of \<open>v / 10\<^sup>p\<^sup>r\<^sup>e\<^sup>c\<close> without trailing zeros
  (and without the point when it is 0), and the integer part of the quotient.
\<close>

fun fmtFrac :: "int \<Rightarrow> nat \<Rightarrow> bool \<Rightarrow> string \<Rightarrow> string \<times> int" where
  "fmtFrac v 0 pr acc = ((if pr then CHR ''.'' # acc else acc), v)"
| "fmtFrac v (Suc k) pr acc =
     (let digit = v mod 10;
          pr' = (pr \<or> digit \<noteq> 0)
      in fmtFrac (v div 10) k pr' (if pr' then digit_char digit # acc else acc))"

text \<open>\<^verbatim>\<open>d.String()\<close>; the micro sign is the two bytes \<open>0xC2 0xB5\<close>.\<close>

definition dur_String :: "int \<Rightarrow> string" where
  "dur_String d =
     (let u = \<bar>d\<bar>
      in if u < Second
         then (if u = 0 then ''0s''
               else (if d < 0 then ''-'' else []) @
                 (if u < 1000 then (case fmtFrac u 0 False [] of (fr, v) \<Rightarrow> udigits v @ fr @ ''ns'')
                  else if u < Millisecond
                    then (case fmtFrac u 3 False [] of (fr, v) \<Rightarrow>
                            udigits v @ fr @ [CHR 0xC2, CHR 0xB5, CHR ''s''])
                  else (case fmtFrac u 6 False [] of (fr, v) \<Rightarrow> udigits v @ fr @ ''ms'')))
         else (if d < 0 then ''-'' else []) @
           (case fmtFrac u 9 False [] of (fr, secs) \<Rightarrow>
              let mins = secs div 60;
                  hours = mins div 60
              in (if 0 < mins
                  then (if 0 < hours then udigits hours @ ''h'' else []) @ udigits (mins mod 60) @ ''m''
                  else []) @
                 udigits (secs mod 60) @ fr @ ''s''))"

text \<open>
  \<^verbatim>\<open>t.Format(layout)\<close>. The model knows the numeric elements of a layout: \<^verbatim>\<open>2006\<close>, \<^verbatim>\<open>06\<close>,
  \<^verbatim>\<open>01\<close>, \<^verbatim>\<open>1\<close>, \<^verbatim>\<open>02\<close>, \<^verbatim>\<open>2\<close>, \<^verbatim>\<open>15\<close> (the hour of the 24-hour clock), \<^verbatim>\<open>03\<close> and \<^verbatim>\<open>3\<close> (the
  hour of the 12-hour clock), \<^verbatim>\<open>04\<close>, \<^verbatim>\<open>4\<close>, \<^verbatim>\<open>05\<close> and \<^verbatim>\<open>5\<close>. Where a layout may start one of
  Go's other elements (names of months and days, \<^verbatim>\<open>PM\<close>, time zones, fractional
  seconds, padding with \<^verbatim>\<open>_\<close>, the day of the year) the model gives \<open>Unsupported\<close>.
\<close>

datatype std = stdLongYear | stdYear | stdZeroMonth | stdNumMonth | stdZeroDay | stdDay
  | stdHour | stdZeroHour12 | stdHour12 | stdZeroMinute | stdMinute
  | stdZeroSecond | stdSecond | stdLiteral | stdOther

definition nextStdChunk :: "string \<Rightarrow> std \<times> nat" where
  "nextStdChunk layout =
     (let c = hd layout in
      if c = CHR ''J'' then (if prefix ''Jan'' layout then (stdOther, 3) else (stdLiteral, 1))
      else if c = CHR ''M''
        then (if prefix ''Mon'' layout \<or> prefix ''MST'' layout then (stdOther, 3) else (stdLiteral, 1))
      else if c = CHR ''0''
        then (if prefix ''01'' layout then (stdZeroMonth, 2)
              else if prefix ''02'' layout then (stdZeroDay, 2)
              else if prefix ''03'' layout then (stdZeroHour12, 2)
              else if prefix ''04'' layout then (stdZeroMinute, 2)
              else if prefix ''05'' layout then (stdZeroSecond, 2)
              else if prefix ''06'' layout then (stdYear, 2)
              else if prefix ''002'' layout then (stdOther, 3)
              else (stdLiteral, 1))
      else if c = CHR ''1'' then (if prefix ''15'' layout then (stdHour, 2) else (stdNumMonth, 1))
      else if c = CHR ''2'' then (if prefix ''2006'' layout then (stdLongYear, 4) else (stdDay, 1))
      else if c = CHR ''_''
        then (if prefix ''_2'' layout \<or> prefix ''__2'' layout then (stdOther, 2) else (stdLiteral, 1))
      else if c = CHR ''3'' then (stdHour12, 1)
      else if c = CHR ''4'' then (stdMinute, 1)
      else if c = CHR ''5'' then (stdSecond, 1)
      else if c = CHR ''P'' then (if prefix ''PM'' layout then (stdOther, 2) else (stdLiteral, 1))
      else if c = CHR ''p'' then (if prefix ''pm'' layout then (stdOther, 2) else (stdLiteral, 1))
      else if c = CHR ''-'' then (if prefix ''-07'' layout then (stdOther, 3) else (stdLiteral, 1))
      else if c = CHR ''Z'' then (if prefix ''Z07'' layout then (stdOther, 3) else (stdLiteral, 1))
      else if c = CHR ''.'' \<or> c = CHR '',''
        then (if prefix [c, CHR ''0''] layout \<or> prefix [c, CHR ''9''] layout
              then (stdOther, 2) else (stdLiteral, 1))
      else (stdLiteral, 1))"

text \<open>\<^verbatim>\<open>appendInt(b, x, width)\<close>: decimal, padded with zeros to the width.\<close>

definition appendInt :: "int \<Rightarrow> nat \<Rightarrow> string" where
  "appendInt x width =
     (let ds = udigits \<bar>x\<bar>
      in (if x < 0 then ''-'' else []) @ replicate (width - length ds) CHR ''0'' @ ds)"

definition hour12 :: "int \<Rightarrow> int" where
  "hour12 h = (let hr = rem h 12 in if hr = 0 then 12 else hr)"

definition appendStd :: "Time \<Rightarrow> std \<Rightarrow> char \<Rightarrow> string" where
  "appendStd t s c =
     (case s of
        stdLongYear \<Rightarrow> appendInt (t_year t) 4
      | stdYear \<Rightarrow> appendInt (rem \<bar>t_year t\<bar> 100) 2
      | stdZeroMonth \<Rightarrow> appendInt (t_month t) 2
      | stdNumMonth \<Rightarrow> appendInt (t_month t) 0
      | stdZeroDay \<Rightarrow> appendInt (t_day t) 2
      | stdDay \<Rightarrow> appendInt (t_day t) 0
      | stdHour \<Rightarrow> appendInt (t_hour t) 2
      | stdZeroHour12 \<Rightarrow> appendInt (hour12 (t_hour t)) 2
      | stdHour12 \<Rightarrow> appendInt (hour12 (t_hour t)) 0
      | stdZeroMinute \<Rightarrow> appendInt (t_minute t) 2
      | stdMinute \<Rightarrow> appendInt (t_minute t) 0
      | stdZeroSecond \<Rightarrow> appendInt (t_second t) 2
      | stdSecond \<Rightarrow> appendInt (t_second t) 0
      | _ \<Rightarrow> [c])"

function time_Format :: "Time \<Rightarrow> string \<Rightarrow> error + string" where
  "time_Format t layout =
     (if layout = [] then Inr []
      else case nextStdChunk layout of
        (stdOther, n) \<Rightarrow> Inl (Unsupported ''layout'')
      | (s, n) \<Rightarrow>
          bind_err (time_Format t (drop (max 1 n) layout))
            (\<lambda>rest. Inr (appendStd t s (hd layout) @ rest)))"
  by pat_completeness auto
termination
  by (relation "measure (\<lambda>(t, layout). length layout)") auto

declare time_Format.simps [simp del]

section \<open>Sprintf\<close>

text \<open>
  The operands of the \<^verbatim>\<open>fmt.Sprintf\<close> call of the reporter are strings, durations,
  integers and floats.
\<close>

datatype arg = AString string | ADuration int | AInt int | AFloat f64

text \<open>
  \<^verbatim>\<open>%.<prec>f\<close> of a float: the exact value rounded to \<open>prec\<close> decimals, ties to even.
\<close>

definition fmt_fixed :: "rat \<Rightarrow> nat \<Rightarrow> string" where
  "fmt_fixed a prec =
     (let n = round_half_even (a * of_int (10 ^ prec));
          ds = udigits (n mod 10 ^ prec)
      in udigits (n div 10 ^ prec) @
         (if prec = 0 then [] else CHR ''.'' # replicate (prec - length ds) CHR ''0'' @ ds))"

definition fmtFloat :: "f64 \<Rightarrow> nat \<Rightarrow> string" where
  "fmtFloat x prec =
     (case x of
        NaN \<Rightarrow> ''NaN''
      | PInf \<Rightarrow> ''+Inf''
      | NInf \<Rightarrow> ''-Inf''
      | NegZero \<Rightarrow> CHR ''-'' # fmt_fixed 0 prec
      | Finite q \<Rightarrow> if q < 0 then CHR ''-'' # fmt_fixed (- q) prec else fmt_fixed q prec)"

text \<open>
  \<^verbatim>\<open>printArg\<close> for the verbs the model knows: \<^verbatim>\<open>%s\<close> and \<^verbatim>\<open>%v\<close> of a string and of a
  duration (its \<^verbatim>\<open>String()\<close>), \<^verbatim>\<open>%d\<close> of an integer and of a duration, \<^verbatim>\<open>%v\<close> of an
  integer, and \<^verbatim>\<open>%f\<close> of a float, with a precision (6 when none is given). Every other
  combination is \<open>Unsupported\<close>.
\<close>

definition printArg :: "arg \<Rightarrow> char \<Rightarrow> nat option \<Rightarrow> error + string" where
  "printArg a verb prec =
     (case a of
        AString str \<Rightarrow>
          if (verb = CHR ''s'' \<or> verb = CHR ''v'') \<and> prec = None then Inr str
          else Inl (Unsupported ''verb'')
      | ADuration d \<Rightarrow>
          if (verb = CHR ''s'' \<or> verb = CHR ''v'') \<and> prec = None then Inr (dur_String d)
          else if verb = CHR ''d'' \<and> prec = None then Inr (Itoa d)
          else Inl (Unsupported ''verb'')
      | AInt i \<Rightarrow>
          if (verb = CHR ''d'' \<or> verb = CHR ''v'') \<and> prec = None then Inr (Itoa i)
          else Inl (Unsupported ''verb'')
      | AFloat x \<Rightarrow>
          if verb = CHR ''f'' then Inr (fmtFloat x (case prec of None \<Rightarrow> 6 | Some n \<Rightarrow> n))
          else Inl (Unsupported ''verb''))"

definition digit_val :: "char \<Rightarrow> int option" where
  "digit_val c =
     map_of [(CHR ''0'', 0), (CHR ''1'', 1), (CHR ''2'', 2), (CHR ''3'', 3), (CHR ''4'', 4),
             (CHR ''5'', 5), (CHR ''6'', 6), (CHR ''7'', 7), (CHR ''8'', 8), (CHR ''9'', 9)] c"

text \<open>
  \<^verbatim>\<open>parsenum\<close>: the number at the head of the string, whether there was one, and the
  rest. A number beyond \<open>10\<^sup>6\<close> is refused and swallows the string.
\<close>

fun parsenum :: "int \<Rightarrow> bool \<Rightarrow> string \<Rightarrow> int \<times> bool \<times> string" where
  "parsenum num isnum [] = (num, isnum, [])"
| "parsenum num isnum (c # cs) =
     (case digit_val c of
        None \<Rightarrow> (num, isnum, c # cs)
      | Some d \<Rightarrow> if 1000000 < num then (0, False, []) else parsenum (num * 10 + d) True cs)"

text \<open>
  \<^verbatim>\<open>parseArgNumber\<close>, on a string that starts with \<^verbatim>\<open>[\<close>: the index (from 0), the
  number of bytes to skip, and whether the index is well formed.
\<close>

definition parseArgNumber :: "string \<Rightarrow> int \<times> nat \<times> bool" where
  "parseArgNumber format =
     (if length format < 3 then (0, 1, False)
      else let inner = takeWhile (\<lambda>c. c \<noteq> CHR '']'') (tl format);
               i = Suc (length inner)
           in if length format \<le> i then (0, 1, False)
              else case parsenum 0 False inner of
                     (width, ok, rest) \<Rightarrow>
                       if \<not> ok \<or> rest \<noteq> [] then (0, Suc i, False)
                       else (width - 1, Suc i, True))"

text \<open>
  The state of one verb: the number of the operand, whether an index was seen in the
  format so far (\<open>reordered\<close>), whether the operand number is good, and the rest of the
  format.
\<close>

record verb_state =
  argNum :: nat
  reordered :: bool
  goodArgNum :: bool
  rest :: string

definition starts_with :: "char \<Rightarrow> string \<Rightarrow> bool" where
  "starts_with c str = (case str of [] \<Rightarrow> False | x # xs \<Rightarrow> x = c)"

text \<open>\<^verbatim>\<open>argNumber\<close>; the result says also whether an index was found.\<close>

definition argNumber :: "nat \<Rightarrow> verb_state \<Rightarrow> verb_state \<times> bool" where
  "argNumber numArgs st =
     (if \<not> starts_with CHR ''['' (rest st) then (st, False)
      else case parseArgNumber (rest st) of
             (index, wid, ok) \<Rightarrow>
               if ok \<and> 0 \<le> index \<and> index < int numArgs
               then (st\<lparr>argNum := nat index, reordered := True, rest := drop wid (rest st)\<rparr>, True)
               else (st\<lparr>reordered := True, goodArgNum := False, rest := drop wid (rest st)\<rparr>, ok))"

definition is_flag :: "char \<Rightarrow> bool" where
  "is_flag c = (c = CHR ''#'' \<or> c = CHR ''0'' \<or> c = CHR ''+'' \<or> c = CHR ''-'' \<or> c = CHR '' '')"

definition is_lower :: "char \<Rightarrow> bool" where
  "is_lower c = (c \<in> set ''abcdefghijklmnopqrstuvwxyz'')"

definition is_ascii :: "char \<Rightarrow> bool" where
  "is_ascii c = (case c of Char b0 b1 b2 b3 b4 b5 b6 b7 \<Rightarrow> \<not> b7)"

text \<open>
  The precision of a verb: after a \<^verbatim>\<open>.\<close> comes an optional index and a number (0 when
  there is none). The result is the state, whether the last thing read was an index, and
  the precision.
\<close>

definition precision :: "nat \<Rightarrow> verb_state \<Rightarrow> bool \<Rightarrow> error + verb_state \<times> bool \<times> nat option" where
  "precision numArgs st afterIndex =
     (if starts_with CHR ''.'' (rest st)
      then case argNumber numArgs
                  (st\<lparr>rest := tl (rest st), goodArgNum := (goodArgNum st \<and> \<not> afterIndex)\<rparr>) of
             (st', afterIndex') \<Rightarrow>
               if starts_with CHR ''*'' (rest st') then Inl (Unsupported ''star'')
               else case parsenum 0 False (rest st') of
                      (num, present, r) \<Rightarrow>
                        Inr (st'\<lparr>rest := r\<rparr>, afterIndex', Some (if present then nat num else 0))
      else Inr (st, afterIndex, None))"

text \<open>
  One verb of \<^verbatim>\<open>doPrintf\<close>, the format being what follows the \<^verbatim>\<open>%\<close>: the text it
  prints, the operand number and \<open>reordered\<close> afterwards, and the rest of the format
  (empty when the format ended without a verb). Flags, widths, \<^verbatim>\<open>*\<close> and verbs beyond
  ASCII are \<open>Unsupported\<close>.
\<close>

definition doVerb :: "arg list \<Rightarrow> nat \<Rightarrow> bool \<Rightarrow> string \<Rightarrow> error + string \<times> nat \<times> bool \<times> string" where
  "doVerb a argNum0 reordered0 format =
     (if format \<noteq> [] \<and> is_flag (hd format) then Inl (Unsupported ''flag'')
      else if format \<noteq> [] \<and> is_lower (hd format) \<and> argNum0 < length a
        then bind_err (printArg (a ! argNum0) (hd format) None)
               (\<lambda>out. Inr (out, Suc argNum0, reordered0, tl format))
      else case argNumber (length a)
                  \<lparr>argNum = argNum0, reordered = reordered0, goodArgNum = True, rest = format\<rparr> of
        (st1, afterIndex1) \<Rightarrow>
          if starts_with CHR ''*'' (rest st1) then Inl (Unsupported ''star'')
          else if rest st1 \<noteq> [] \<and> digit_val (hd (rest st1)) \<noteq> None then Inl (Unsupported ''width'')
          else bind_err (precision (length a) st1 afterIndex1) (\<lambda>(st2, afterIndex2, prec).
            case (if \<not> afterIndex2 then argNumber (length a) st2 else (st2, afterIndex2)) of
              (st3, afterIndex3) \<Rightarrow>
                if rest st3 = [] then Inr (''%!(NOVERB)'', argNum st3, reordered st3, [])
                else let verb = hd (rest st3);
                         r = tl (rest st3)
                     in if \<not> is_ascii verb then Inl (Unsupported ''rune'')
                        else if verb = CHR ''%'' then Inr (''%'', argNum st3, reordered st3, r)
                        else if \<not> goodArgNum st3
                          then Inr (''%!'' @ [verb] @ ''(BADINDEX)'', argNum st3, reordered st3, r)
                        else if length a \<le> argNum st3
                          then Inr (''%!'' @ [verb] @ ''(MISSING)'', argNum st3, reordered st3, r)
                        else bind_err (printArg (a ! argNum st3) verb prec)
                               (\<lambda>out. Inr (out, Suc (argNum st3), reordered st3, r))))"

text \<open>
  \<^verbatim>\<open>doPrintf\<close>: text is copied up to the next \<^verbatim>\<open>%\<close>, then comes a verb. At the end,
  operands that were not used are reported (\<^verbatim>\<open>%!(EXTRA ...)\<close>, with \<^verbatim>\<open>%v\<close> of each of
  them) unless the format had an index; the model stops there with \<open>Unsupported\<close>.
\<close>

function doPrintf :: "arg list \<Rightarrow> nat \<Rightarrow> bool \<Rightarrow> string \<Rightarrow> error + string" where
  "doPrintf a n reord format =
     (case format of
        [] \<Rightarrow> if \<not> reord \<and> n < length a then Inl (Unsupported ''EXTRA'') else Inr []
      | c # cs \<Rightarrow>
          if c \<noteq> CHR ''%'' then bind_err (doPrintf a n reord cs) (\<lambda>out. Inr (c # out))
          else case doVerb a n reord cs of
                 Inl e \<Rightarrow> Inl e
               | Inr (out, n', reord', r) \<Rightarrow>
                   bind_err (doPrintf a n' reord' (drop (length cs - length r) cs))
                     (\<lambda>out'. Inr (out @ out')))"
  by pat_completeness auto
termination
  by (relation "measure (\<lambda>(a, n, reord, format). length format)") auto

declare doPrintf.simps [simp del]

definition Sprintf :: "string \<Rightarrow> arg list \<Rightarrow> error + string" where
  "Sprintf format a = doPrintf a 0 False format"

section \<open>Writers\<close>

text \<open>
  The reporter writes through a \<^verbatim>\<open>bufio.Writer\<close>, which it reaches by a pointer. The
  \<open>world\<close> holds the buffered writers by address, and what each \<^verbatim>\<open>io.Writer\<close> has
  received so far. A \<open>bufio\<close> is the writer it wraps (\<open>wr\<close>) and the bytes it holds
  back (\<open>buf\<close>). \<^verbatim>\<open>WriteString\<close> may pass bytes on before \<^verbatim>\<open>Flush\<close> is called, when its
  buffer is full; the model keeps them until the flush, which is where the reporter
  looks. The underlying writers accept everything (the reporter discards their errors).
\<close>

record bufio =
  wr :: nat
  buf :: string

record world =
  writers :: "nat \<Rightarrow> bufio option"
  next_writer :: nat
  sinks :: "nat \<Rightarrow> string"

definition NewWriter :: "nat \<Rightarrow> world \<Rightarrow> nat \<times> world" where
  "NewWriter w wo =
     (next_writer wo,
      wo\<lparr>writers := (writers wo)(next_writer wo \<mapsto> \<lparr>wr = w, buf = []\<rparr>),
         next_writer := Suc (next_writer wo)\<rparr>)"

text \<open>
  \<^verbatim>\<open>writeString\<close> and \<^verbatim>\<open>flush\<close> of the reporter; a \<^verbatim>\<open>nil\<close> writer is a nil pointer
  dereference.
\<close>

definition writeString :: "TextReporter \<Rightarrow> string \<Rightarrow> world \<Rightarrow> error + world" where
  "writeString r str wo =
     (case writer r of
        None \<Rightarrow> Inl NilDereference
      | Some a \<Rightarrow>
          (case writers wo a of
             None \<Rightarrow> Inl NilDereference
           | Some b \<Rightarrow> Inr (wo\<lparr>writers := (writers wo)(a \<mapsto> b\<lparr>buf := buf b @ str\<rparr>)\<rparr>)))"

definition flush :: "TextReporter \<Rightarrow> world \<Rightarrow> error + world" where
  "flush r wo =
     (case writer r of
        None \<Rightarrow> Inl NilDereference
      | Some a \<Rightarrow>
          (case writers wo a of
             None \<Rightarrow> Inl NilDereference
           | Some b \<Rightarrow>
               Inr (wo\<lparr>writers := (writers wo)(a \<mapsto> b\<lparr>buf := []\<rparr>),
                       sinks := (sinks wo)(wr b := sinks wo (wr b) @ buf b)\<rparr>)))"

section \<open>Rendering a report\<close>

definition layout :: string where
  "layout = ''2006-01-02 03:04:05''"

text \<open>
  \<^verbatim>\<open>TextReporter.Report\<close>: the reporter and the world before, and after. The legend is
  compiled, and the buffered writer made, while the compiled legend is empty. When a step
  panics, the reporter keeps the compiled legend and the writer it has by then, and the
  writer what was written to it.
\<close>

definition TextReporter_Report ::
    "(f64 \<Rightarrow> int) \<Rightarrow> Report \<Rightarrow> TextReporter \<times> world
       \<Rightarrow> error \<times> TextReporter \<times> world + TextReporter \<times> world" where
  "TextReporter_Report impl report rw =
     (case (if legendCompiled (fst rw) = []
            then (case NewWriter (output_w (fst rw)) (snd rw) of
                    (a, wo) \<Rightarrow>
                      ((fst rw)\<lparr>legendCompiled :=
                                  compileLegend (legend (fst rw)) (floatPrecision (fst rw)),
                                writer := Some a\<rparr>, wo))
            else rw) of
        (r, wo) \<Rightarrow>
          let eta0 = dur_Round (ETA report) Second;
              eta = (if eta0 \<le> 0 then 0 else eta0)
          in bind_at (r, wo) (renderProgressBar impl r report) (\<lambda>progressBar.
             bind_at (r, wo) (time_Format (Now report) layout) (\<lambda>nowText.
             bind_at (r, wo) (time_Format (StartedAt report) layout) (\<lambda>startedText.
             bind_at (r, wo) (Sprintf (legendCompiled r)
                         [AString nowText,
                          AString startedText,
                          ADuration (dur_Round (DT report) Millisecond),
                          AInt (Total report),
                          AInt (Done report),
                          AInt (Left report),
                          AFloat (Ratio report),
                          AInt (PercentInt report),
                          AFloat (PercentFloat report),
                          ADuration (dur_Round (Elapsed report) Second),
                          ADuration eta,
                          AFloat (RPSAvg report),
                          AFloat (RPSInst report),
                          AFloat (RPMAvg report),
                          AString progressBar]) (\<lambda>line.
             let lineLength = int (length line)
             in bind_at (r, wo) (writeString r line wo) (\<lambda>wo1.
                bind_at (r, wo1) (if lineLength < lastLegendLength r
                          then bind_err (Repeat '' '' (lastLegendLength r - lineLength))
                                 (\<lambda>spaces. writeString r spaces wo1)
                          else Inr wo1) (\<lambda>wo2.
                bind_at (r\<lparr>lastLegendLength := lineLength\<rparr>, wo2) (flush r wo2) (\<lambda>wo3.
                Inr (r\<lparr>lastLegendLength := lineLength\<rparr>, wo3)))))))))"

text \<open>\<^verbatim>\<open>Finalize\<close> writes a line break and flushes.\<close>

definition Finalize ::
    "TextReporter \<times> world \<Rightarrow> error \<times> TextReporter \<times> world + TextReporter \<times> world" where
  "Finalize rw =
     bind_at rw (writeString (fst rw) [CHR 0x0A] (snd rw)) (\<lambda>wo1.
     bind_at (fst rw, wo1) (flush (fst rw) wo1) (\<lambda>wo2. Inr (fst rw, wo2)))"

text \<open>A world with no buffered writer, where nothing has been written.\<close>

definition empty_world :: world where
  "empty_world = \<lparr>writers = (\<lambda>a. None), next_writer = 0, sinks = (\<lambda>w. [])\<rparr>"

section \<open>Sequences of tracker operations\<close>






section \<open>The scheduler\<close>

text \<open>
  The reporter of a tracker is any implementation of the interface \<^verbatim>\<open>Reporter\<close>, given
  by its two methods on the reporter's state. A method that panics leaves a state too.
  A call of a method of the \<^verbatim>\<open>nil\<close> reporter (\<^verbatim>\<open>WithReporter(nil)\<close>) panics at the call.
\<close>

record 'r Reporter =
  rep_Report :: "Report \<Rightarrow> 'r \<Rightarrow> error \<times> 'r + 'r"
  rep_Finalize :: "'r \<Rightarrow> error \<times> 'r + 'r"

definition nil_reporter :: "unit Reporter" where
  "nil_reporter = \<lparr>rep_Report = (\<lambda>rep r. Inl (NilDereference, r)),
                    rep_Finalize = (\<lambda>r. Inl (NilDereference, r))\<rparr>"

text \<open>The text reporter as a \<^verbatim>\<open>Reporter\<close>: its state is the reporter and the world.\<close>

definition textReporter :: "(f64 \<Rightarrow> int) \<Rightarrow> (TextReporter \<times> world) Reporter" where
  "textReporter impl = \<lparr>rep_Report = TextReporter_Report impl, rep_Finalize = Finalize\<rparr>"

text \<open>
  The goroutine of the scheduler runs alone on the reporter, so its run is determined by
  what arrives while it runs: at a \<^verbatim>\<open>select\<close> either the timer fires (\<open>Tick\<close>, with the
  reading of the clock that the following \<^verbatim>\<open>Report()\<close> takes) or the cancellation
  channel delivers (\<open>Cancel\<close>); in between, producers add to the counter (\<open>Produce\<close>).
  The model records the calls the goroutine makes, in order (also a call that panics at
  once), and where it stands: still in the loop, returned, or stopped by a panic (after
  its deferred calls).

  A channel is known by its identity, and \<open>closed\<close> holds the channels that are closed.
  A tracker made by \<^verbatim>\<open>WithReporter\<close> has the channel of the tracker it was copied from, so
  the channel of a tracker may be closed by the goroutine of another one; closing a
  closed channel panics, and so does closing the \<^verbatim>\<open>nil\<close> channel. \<^verbatim>\<open>Done()\<close> returns the
  channel, and a receive from it returns once it is closed (\<open>done_fired\<close>); a receive
  from the \<^verbatim>\<open>nil\<close> channel never returns.
\<close>

datatype signal = Tick Time | Cancel | Produce int

datatype event = CallReport Report | CallFinalize | CloseDone

datatype status = Running | Returned | Panicked error

record 'r sched =
  tracker :: "'r Progress"
  events :: "event list"
  status :: status
  closed :: "nat set"

definition Progress_Done :: "'r Progress \<Rightarrow> nat option" where
  "Progress_Done p = doneCh p"

definition done_fired :: "'r sched \<Rightarrow> bool" where
  "done_fired s = (case Progress_Done (tracker s) of None \<Rightarrow> False | Some c \<Rightarrow> c \<in> closed s)"

text \<open>\<^verbatim>\<open>p.reporter.Report(p.Report())\<close>\<close>

definition report_once :: "(f64 \<Rightarrow> int) \<Rightarrow> 'r Reporter \<Rightarrow> Time \<Rightarrow> 'r sched \<Rightarrow> 'r sched" where
  "report_once impl ops now s =
     (case Progress_Report impl now (tracker s) of
        (rep, p) \<Rightarrow>
          (case rep_Report ops rep (reporter p) of
             Inl (e, r) \<Rightarrow> s\<lparr>tracker := p\<lparr>reporter := r\<rparr>, events := events s @ [CallReport rep],
                             status := Panicked e\<rparr>
           | Inr r \<Rightarrow> s\<lparr>tracker := p\<lparr>reporter := r\<rparr>, events := events s @ [CallReport rep]\<rparr>))"

text \<open>
  The deferred function of \<^verbatim>\<open>StartChan\<close>: \<^verbatim>\<open>Finalize()\<close>, and when it has returned,
  \<^verbatim>\<open>close(p.doneCh)\<close>. It runs when the goroutine returns (\<open>st = Returned\<close>) and when it
  panics. When \<^verbatim>\<open>Finalize()\<close> panics the channel is not closed; when the channel is
  \<^verbatim>\<open>nil\<close> or closed already, the \<^verbatim>\<open>close\<close> panics. The event \<open>CloseDone\<close> is a \<^verbatim>\<open>close\<close>
  that succeeded.
\<close>

definition deferred :: "'r Reporter \<Rightarrow> status \<Rightarrow> 'r sched \<Rightarrow> 'r sched" where
  "deferred ops st s =
     (case rep_Finalize ops (reporter (tracker s)) of
        Inl (e, r) \<Rightarrow> s\<lparr>tracker := (tracker s)\<lparr>reporter := r\<rparr>,
                        events := events s @ [CallFinalize], status := Panicked e\<rparr>
      | Inr r \<Rightarrow>
          (case doneCh (tracker s) of
             None \<Rightarrow> s\<lparr>tracker := (tracker s)\<lparr>reporter := r\<rparr>,
                       events := events s @ [CallFinalize],
                       status := Panicked (Panic ''close of nil channel'')\<rparr>
           | Some c \<Rightarrow>
               if c \<in> closed s
               then s\<lparr>tracker := (tracker s)\<lparr>reporter := r\<rparr>,
                      events := events s @ [CallFinalize],
                      status := Panicked (Panic ''close of closed channel'')\<rparr>
               else s\<lparr>tracker := (tracker s)\<lparr>reporter := r\<rparr>,
                      events := events s @ [CallFinalize, CloseDone], status := st,
                      closed := insert c (closed s)\<rparr>))"

fun chan_loop :: "(f64 \<Rightarrow> int) \<Rightarrow> 'r Reporter \<Rightarrow> signal list \<Rightarrow> 'r sched \<Rightarrow> 'r sched" where
  "chan_loop impl ops [] s = s"
| "chan_loop impl ops (Produce n # sigs) s = chan_loop impl ops sigs (s\<lparr>tracker := Add n (tracker s)\<rparr>)"
| "chan_loop impl ops (Cancel # sigs) s = deferred ops Returned s"
| "chan_loop impl ops (Tick now # sigs) s =
     (let s' = report_once impl ops now s
      in case status s' of
           Panicked e \<Rightarrow> deferred ops (Panicked e) s'
         | _ \<Rightarrow> chan_loop impl ops sigs s')"

text \<open>
  \<^verbatim>\<open>StartChan(p, done)\<close> of \<^verbatim>\<open>src/unnamed/part_002\<close>: \<open>now0\<close> is the clock at the
  start, \<open>now1\<close> the clock at the first report, and \<open>cl\<close> the channels that others have
  closed by the time the goroutine ends. \<^verbatim>\<open>StartCtx(p, ctx)\<close> is
  \<^verbatim>\<open>StartChan(p, ctx.Done())\<close>.
\<close>

definition StartChan ::
    "(f64 \<Rightarrow> int) \<Rightarrow> 'r Reporter \<Rightarrow> Time \<Rightarrow> Time \<Rightarrow> signal list \<Rightarrow> nat set \<Rightarrow> 'r Progress
       \<Rightarrow> 'r sched" where
  "StartChan impl ops now0 now1 sigs cl p =
     (let s = report_once impl ops now1
                \<lparr>tracker = p\<lparr>startedAt := now0, lastReportedAt := now0\<rparr>,
                 events = [], status = Running, closed = cl\<rparr>
      in case status s of
           Panicked e \<Rightarrow> deferred ops (Panicked e) s
         | _ \<Rightarrow> chan_loop impl ops sigs s)"

definition StartCtx ::
    "(f64 \<Rightarrow> int) \<Rightarrow> 'r Reporter \<Rightarrow> Time \<Rightarrow> Time \<Rightarrow> signal list \<Rightarrow> nat set \<Rightarrow> 'r Progress
       \<Rightarrow> 'r sched" where
  "StartCtx impl ops now0 now1 sigs cl p = StartChan impl ops now0 now1 sigs cl p"

text \<open>
  \<^verbatim>\<open>Start(ctx)\<close> of \<^verbatim>\<open>src/gopv.go\<close>: the same loop with no deferred function. Its
  tracker has no completion channel.
\<close>

record 'r sched0 =
  tracker0 :: "'r Progress0"
  events0 :: "event list"
  status0 :: status

definition report_once0 :: "(f64 \<Rightarrow> int) \<Rightarrow> 'r Reporter \<Rightarrow> Time \<Rightarrow> 'r sched0 \<Rightarrow> 'r sched0" where
  "report_once0 impl ops now s =
     (case Progress0_Report impl now (tracker0 s) of
        (rep, p) \<Rightarrow>
          (case rep_Report ops rep (reporter0 p) of
             Inl (e, r) \<Rightarrow> s\<lparr>tracker0 := p\<lparr>reporter0 := r\<rparr>, events0 := events0 s @ [CallReport rep],
                             status0 := Panicked e\<rparr>
           | Inr r \<Rightarrow> s\<lparr>tracker0 := p\<lparr>reporter0 := r\<rparr>, events0 := events0 s @ [CallReport rep]\<rparr>))"

fun ctx_loop :: "(f64 \<Rightarrow> int) \<Rightarrow> 'r Reporter \<Rightarrow> signal list \<Rightarrow> 'r sched0 \<Rightarrow> 'r sched0" where
  "ctx_loop impl ops [] s = s"
| "ctx_loop impl ops (Produce n # sigs) s = ctx_loop impl ops sigs (s\<lparr>tracker0 := Add0 n (tracker0 s)\<rparr>)"
| "ctx_loop impl ops (Cancel # sigs) s = s\<lparr>status0 := Returned\<rparr>"
| "ctx_loop impl ops (Tick now # sigs) s =
     (let s' = report_once0 impl ops now s
      in case status0 s' of
           Panicked e \<Rightarrow> s'
         | _ \<Rightarrow> ctx_loop impl ops sigs s')"

definition Start ::
    "(f64 \<Rightarrow> int) \<Rightarrow> 'r Reporter \<Rightarrow> Time \<Rightarrow> Time \<Rightarrow> signal list \<Rightarrow> 'r Progress0 \<Rightarrow> 'r sched0" where
  "Start impl ops now0 now1 sigs p =
     (let s = report_once0 impl ops now1
                \<lparr>tracker0 = p\<lparr>startedAt0 := now0, lastReportedAt0 := now0\<rparr>,
                 events0 = [], status0 = Running\<rparr>
      in case status0 s of
           Panicked e \<Rightarrow> s
         | _ \<Rightarrow> ctx_loop impl ops sigs s)"

text \<open>
  The traces of a scheduler that finalizes: reports only while it runs; at the end one
  \<^verbatim>\<open>Finalize()\<close>, followed by the closing of the completion channel unless
  \<^verbatim>\<open>Finalize()\<close> or the \<^verbatim>\<open>close\<close> itself panicked.
\<close>

fun is_report :: "event \<Rightarrow> bool" where
  "is_report (CallReport r) = True"
| "is_report e = False"

inductive scheduler_trace :: "event list \<Rightarrow> status \<Rightarrow> bool" where
  running: "list_all is_report es \<Longrightarrow> scheduler_trace es Running"
| report_panic:
    "list_all is_report es \<Longrightarrow> scheduler_trace (es @ [CallFinalize, CloseDone]) (Panicked e)"
| finalize_panic: "list_all is_report es \<Longrightarrow> scheduler_trace (es @ [CallFinalize]) (Panicked e)"
| returned: "list_all is_report es \<Longrightarrow> scheduler_trace (es @ [CallFinalize, CloseDone]) Returned"

section \<open>Legends as sequences of segments\<close>

text \<open>
  A legend read as the specification reads it: plain text, the escaped percent sign
  \<^verbatim>\<open>%%\<close>, and brace-delimited names. In a well-formed segment plain text has no opening
  brace and no percent sign, and a name has no brace and no percent sign.
\<close>

datatype seg = Plain string | Percent | Brace string

fun seg_text :: "seg \<Rightarrow> string" where
  "seg_text (Plain t) = t"
| "seg_text Percent = ''%%''"
| "seg_text (Brace b) = CHR ''{'' # b @ ''}''"

definition legend_of :: "seg list \<Rightarrow> string" where
  "legend_of segs = concat (map seg_text segs)"

fun wf_seg :: "seg \<Rightarrow> bool" where
  "wf_seg (Plain t) = (CHR ''{'' \<notin> set t \<and> CHR ''%'' \<notin> set t)"
| "wf_seg Percent = True"
| "wf_seg (Brace b) = (CHR ''{'' \<notin> set b \<and> CHR ''}'' \<notin> set b \<and> CHR ''%'' \<notin> set b)"

text \<open>The fifteen placeholders of the specification.\<close>

definition placeholder_names :: "string list" where
  "placeholder_names =
     [''now'', ''started_at'', ''dt'', ''total'', ''done'', ''left'', ''ratio'', ''percent_int'',
      ''percent_float'', ''elapsed'', ''eta'', ''rps_avg'', ''rps_inst'', ''rpm'', ''progress_bar'']"

fun is_placeholder :: "seg \<Rightarrow> bool" where
  "is_placeholder (Brace b) = (b \<in> set placeholder_names)"
| "is_placeholder s = False"

text \<open>
  The text of a timestamp, and what a brace-delimited name stands for in the rendered
  line: the field of the snapshot for a placeholder (\<open>fp\<close> is the float precision, \<open>pb\<close>
  the progress bar), the float precision for the name \<^verbatim>\<open>float_precision\<close>, which
  \<^verbatim>\<open>compileLegend\<close> uses for itself, and the name in its braces for every other name.
\<close>

definition timestamp :: "Time \<Rightarrow> string" where
  "timestamp t =
     appendInt (t_year t) 4 @ ''-'' @ appendInt (t_month t) 2 @ ''-'' @ appendInt (t_day t) 2 @
     '' '' @ appendInt (hour12 (t_hour t)) 2 @ '':'' @ appendInt (t_minute t) 2 @ '':'' @
     appendInt (t_second t) 2"

definition expansion :: "nat \<Rightarrow> string \<Rightarrow> Report \<Rightarrow> string \<Rightarrow> string" where
  "expansion fp pb rep name =
     (if name = ''now'' then timestamp (Now rep)
      else if name = ''started_at'' then timestamp (StartedAt rep)
      else if name = ''dt'' then dur_String (dur_Round (DT rep) Millisecond)
      else if name = ''total'' then Itoa (Total rep)
      else if name = ''done'' then Itoa (Done rep)
      else if name = ''left'' then Itoa (Left rep)
      else if name = ''ratio'' then fmtFloat (Ratio rep) fp
      else if name = ''percent_int'' then Itoa (PercentInt rep)
      else if name = ''percent_float'' then fmtFloat (PercentFloat rep) fp
      else if name = ''elapsed'' then dur_String (dur_Round (Elapsed rep) Second)
      else if name = ''eta'' then dur_String (max 0 (dur_Round (ETA rep) Second))
      else if name = ''rps_avg'' then fmtFloat (RPSAvg rep) fp
      else if name = ''rps_inst'' then fmtFloat (RPSInst rep) fp
      else if name = ''rpm'' then fmtFloat (RPMAvg rep) fp
      else if name = ''progress_bar'' then pb
      else if name = ''float_precision'' then Itoa (int fp)
      else CHR ''{'' # name @ ''}'')"

fun seg_out :: "nat \<Rightarrow> string \<Rightarrow> Report \<Rightarrow> seg \<Rightarrow> string" where
  "seg_out fp pb rep (Plain t) = t"
| "seg_out fp pb rep Percent = ''%''"
| "seg_out fp pb rep (Brace b) = expansion fp pb rep b"

text \<open>
  For the proofs about \<^verbatim>\<open>compileLegend\<close>: a format as a sequence of pieces, text without
  an opening brace and names in braces, and the replacement of a name by pieces.
\<close>

datatype piece = Lit string | Br string

fun piece_text :: "piece \<Rightarrow> string" where
  "piece_text (Lit t) = t"
| "piece_text (Br b) = CHR ''{'' # b @ ''}''"

definition flat :: "piece list \<Rightarrow> string" where
  "flat ps = concat (map piece_text ps)"

fun wf_piece :: "piece \<Rightarrow> bool" where
  "wf_piece (Lit t) = (CHR ''{'' \<notin> set t)"
| "wf_piece (Br b) = (CHR ''{'' \<notin> set b \<and> CHR ''}'' \<notin> set b)"

definition subst :: "string \<Rightarrow> piece list \<Rightarrow> piece list \<Rightarrow> piece list" where
  "subst name new ps = concat (map (\<lambda>p. if p = Br name then new else [p]) ps)"

fun piece_of :: "seg \<Rightarrow> piece" where
  "piece_of (Plain t) = Lit t"
| "piece_of Percent = Lit ''%%''"
| "piece_of (Brace b) = Br b"

text \<open>The sixteen replacements of \<^verbatim>\<open>compileLegend\<close>, on pieces.\<close>

definition float_verb :: "string \<Rightarrow> piece list" where
  "float_verb index = [Lit ''%.'', Br ''float_precision'', Lit (CHR ''['' # index @ '']f'')]"

definition compile_pieces :: "int \<Rightarrow> piece list \<Rightarrow> piece list" where
  "compile_pieces fp ps =
     (let ps = subst ''now'' [Lit ''%[1]s''] ps;
          ps = subst ''started_at'' [Lit ''%[2]s''] ps;
          ps = subst ''dt'' [Lit ''%[3]s''] ps;
          ps = subst ''total'' [Lit ''%[4]d''] ps;
          ps = subst ''done'' [Lit ''%[5]d''] ps;
          ps = subst ''left'' [Lit ''%[6]d''] ps;
          ps = subst ''ratio'' (float_verb ''7'') ps;
          ps = subst ''percent_int'' [Lit ''%[8]d''] ps;
          ps = subst ''percent_float'' (float_verb ''9'') ps;
          ps = subst ''elapsed'' [Lit ''%[10]s''] ps;
          ps = subst ''eta'' [Lit ''%[11]s''] ps;
          ps = subst ''rps_avg'' (float_verb ''12'') ps;
          ps = subst ''rps_inst'' (float_verb ''13'') ps;
          ps = subst ''rpm'' (float_verb ''14'') ps;
          ps = subst ''progress_bar'' [Lit ''%[15]s''] ps;
          ps = subst ''float_precision'' [Lit (Itoa fp)] ps
      in ps)"

text \<open>
  The operands of the \<^verbatim>\<open>Sprintf\<close> call of the reporter, for a snapshot and its progress
  bar.
\<close>

definition operands :: "Report \<Rightarrow> string \<Rightarrow> arg list" where
  "operands rep pb =
     [AString (timestamp (Now rep)),
      AString (timestamp (StartedAt rep)),
      ADuration (dur_Round (DT rep) Millisecond),
      AInt (Total rep),
      AInt (Done rep),
      AInt (Left rep),
      AFloat (Ratio rep),
      AInt (PercentInt rep),
      AFloat (PercentFloat rep),
      ADuration (dur_Round (Elapsed rep) Second),
      ADuration (max 0 (dur_Round (ETA rep) Second)),
      AFloat (RPSAvg rep),
      AFloat (RPSInst rep),
      AFloat (RPMAvg rep),
      AString pb]"

section \<open>The progress bar of the specification\<close>

text \<open>
  The bar as the specification describes it: within the brackets \<open>fill\<close> times \<^verbatim>\<open>#\<close>,
  then \<^verbatim>\<open>-\<close> up to the width. \<open>ratio_times_width\<close> is the ratio, clamped to be at
  least 0, times the width of the interior, in floating point.
\<close>

definition bar :: "int \<Rightarrow> int \<Rightarrow> string" where
  "bar width fill =
     ''['' @ replicate (nat fill) CHR ''#'' @ replicate (nat (width - 2 - fill)) CHR ''-'' @ '']''"

definition ratio_times_width :: "f64 \<Rightarrow> int \<Rightarrow> f64" where
  "ratio_times_width ratio width =
     f64_mul (if f64_lt ratio (Finite 0) then Finite 0 else ratio) (f64_of_int (width - 2))"

section \<open>Example values\<close>

text \<open>
  On amd64 the conversion of a float that is no \<^verbatim>\<open>int64\<close> gives the smallest
  \<^verbatim>\<open>int64\<close>.
\<close>

definition indefinite :: "f64 \<Rightarrow> int" where
  "indefinite x = minInt64"

text \<open>A clock reading on December 2, 2023 at 14:30:00, at \<open>ns\<close> on the timeline.\<close>

definition clock :: "int \<Rightarrow> Time" where
  "clock ns = \<lparr>t_ns = ns, t_year = 2023, t_month = 12, t_day = 2,
               t_hour = 14, t_minute = 30, t_second = 0\<rparr>"

text \<open>The tracker \<^verbatim>\<open>New(tot)\<close> with a reporter \<open>r\<close>.\<close>

definition fresh :: "int \<Rightarrow> 'r \<Rightarrow> 'r Progress" where
  "fresh tot r = \<lparr>total = tot, done_items = 0, startedAt = zero_Time, reportTime = Second,
                  lastReportedDone = 0, lastReportedAt = zero_Time, reporter = r, doneCh = Some 0\<rparr>"

text \<open>What a run of the reporter has written to the writer \<open>out\<close>, and its reporter.\<close>

definition written ::
    "nat \<Rightarrow> error \<times> TextReporter \<times> world + TextReporter \<times> world \<Rightarrow> error + string" where
  "written out res = (case res of Inl ew \<Rightarrow> Inl (fst ew) | Inr rw \<Rightarrow> Inr (sinks (snd rw) out))"

definition reporter_after ::
    "error \<times> TextReporter \<times> world + TextReporter \<times> world \<Rightarrow> error + TextReporter" where
  "reporter_after res = (case res of Inl ew \<Rightarrow> Inl (fst ew) | Inr rw \<Rightarrow> Inr (fst rw))"

text \<open>
  The snapshot of the tracker \<^verbatim>\<open>New(50)\<close> after \<^verbatim>\<open>Add(25)\<close>, taken one second after
  the zero time.
\<close>

definition half_done :: Report where
  "half_done = fst (Progress_Report indefinite (clock 1000000000) (Add 25 (fresh 50 ())))"

text \<open>
  The snapshot of the tracker \<^verbatim>\<open>New(1)\<close> after \<^verbatim>\<open>Add(200000000000000000)\<close>, taken one
  second after the zero time: its ratio is \<open>2 \<cdot> 10\<^sup>1\<^sup>7\<close>.
\<close>

definition far_over :: Report where
  "far_over = fst (Progress_Report indefinite (clock 1000000000)
                    (Add 200000000000000000 (fresh 1 ())))"

text \<open>A run of the scheduler: 25 items are produced, the timer fires, the run is cancelled.\<close>

definition short_run :: "signal list" where
  "short_run = [Produce 25, Tick (clock 2000000000), Cancel]"

section \<open>The two versions of Report\<close>

text \<open>
  C10. \<^verbatim>\<open>Report()\<close> of \<^verbatim>\<open>src/gopv.go\<close> and \<^verbatim>\<open>Report()\<close> of \<^verbatim>\<open>src/unnamed/part_002\<close>
  are extensionally equal: on the same tracker state and the same reading of the clock
  they return the same snapshot and leave the same tracker state.
\<close>

theorem Report_versions_equal:
  "Progress0_Report impl now (strip p) =
     (fst (Progress_Report impl now p), strip (snd (Progress_Report impl now p)))"
  by (simp add: Progress0_Report_def Progress_Report_def strip_def Let_def)

section \<open>The counter\<close>

lemma wrap64_id: "in_int64 x \<Longrightarrow> wrap64 x = x"
  by (simp add: in_int64_def wrap64_def minInt64_def maxInt64_def)







section \<open>Rendering\<close>

lemma time_Format_layout:
  "time_Format t layout =
     Inr (appendInt (t_year t) 4 @ ''-'' @ appendInt (t_month t) 2 @ ''-'' @
          appendInt (t_day t) 2 @ '' '' @ appendInt (hour12 (t_hour t)) 2 @ '':'' @
          appendInt (t_minute t) 2 @ '':'' @ appendInt (t_second t) 2)"
  by (simp add: layout_def time_Format.simps nextStdChunk_def appendStd_def bind_err_def)

text \<open>
  C5. The claim asks for the hour of the 24-hour clock. The layout of the reporter,
  \<^verbatim>\<open>2006-01-02 03:04:05\<close>, has \<^verbatim>\<open>03\<close>, the hour of the 12-hour clock (the 24-hour
  clock is \<^verbatim>\<open>15\<close>): half past two in the afternoon is printed as \<^verbatim>\<open>02:30:00\<close>, by
  \<^verbatim>\<open>Format\<close> and so by a reporter whose legend is \<^verbatim>\<open>{now}\<close>.
\<close>

theorem timestamp_hour_12:
  "time_Format (clock 1000000000) layout = Inr ''2023-12-02 02:30:00''
   \<and> written 2 (TextReporter_Report indefinite half_done
        (WithLegend ''{now}'' (NewTextReporter 2), empty_world)) = Inr ''2023-12-02 02:30:00''"
  by code_simp

text \<open>
  The builder methods leave the receiver alone and set one field of the copy; the copy
  has all the other fields of the original, the runtime state too.
\<close>

lemma WithLegend_fields:
  "legendCompiled (WithLegend l r) = legendCompiled r
   \<and> writer (WithLegend l r) = writer r
   \<and> lastLegendLength (WithLegend l r) = lastLegendLength r"
  by (simp add: WithLegend_def clone_def)

text \<open>
  C6. The claim (and the comment on the struct: runtime vars should not be copied in
  \<^verbatim>\<open>clone()\<close>) asks for a copy without the runtime state. \<^verbatim>\<open>clone()\<close> copies the whole
  struct. A reporter with the legend \<^verbatim>\<open>{percent_int}\<close> that has rendered the snapshot
  \<open>half_done\<close> once has written \<^verbatim>\<open>50\<close>; \<^verbatim>\<open>WithLegend("{done}")\<close> of it still has the
  compiled legend \<^verbatim>\<open>%[8]d\<close>, the same buffered writer and the line length 2, and renders
  the snapshot as \<^verbatim>\<open>50\<close> again, not as \<^verbatim>\<open>25\<close>.
\<close>

theorem clone_copies_runtime_state:
  "bind_err (TextReporter_Report indefinite half_done
              (WithLegend ''{percent_int}'' (NewTextReporter 2), empty_world))
     (\<lambda>rw. Inr (legendCompiled (WithLegend ''{done}'' (fst rw)),
                 writer (WithLegend ''{done}'' (fst rw)),
                 lastLegendLength (WithLegend ''{done}'' (fst rw)),
                 written 2 (TextReporter_Report indefinite half_done
                              (WithLegend ''{done}'' (fst rw), snd rw))))
   = Inr (''%[8]d'', Some 0, 2, Inr ''5050'')"
proof -
  let ?run = "bind_err (TextReporter_Report indefinite half_done
              (WithLegend ''{percent_int}'' (NewTextReporter 2), empty_world))
     (\<lambda>rw. Inr (legendCompiled (WithLegend ''{done}'' (fst rw)),
                 writer (WithLegend ''{done}'' (fst rw)),
                 lastLegendLength (WithLegend ''{done}'' (fst rw)),
                 written 2 (TextReporter_Report indefinite half_done
                              (WithLegend ''{done}'' (fst rw), snd rw))))"
  have "(case ?run of Inl ew \<Rightarrow> None | Inr v \<Rightarrow> Some v)
      = Some (''%[8]d'', Some 0, 2, Inr ''5050'')"
    by code_simp
  then show ?thesis
    by (cases ?run) simp_all
qed

subsection \<open>The legend \<^verbatim>\<open>{percent_int}\<close>\<close>

lemma Sprintf_percent_int:
  "Sprintf ''%[8]d'' [a1, a2, a3, a4, a5, a6, a7, AInt i, a9, a10, a11, a12, a13, a14, a15]
     = Inr (Itoa i)"
  by (simp add: Sprintf_def doPrintf.simps doVerb_def is_flag_def is_lower_def argNumber_def
      starts_with_def parseArgNumber_def digit_val_def precision_def is_ascii_def printArg_def
      bind_err_def)

lemma ratio_25_50: "f64_div (f64_of_int 25) (f64_of_int 50) = Finite (1 / 2)"
  by code_simp

lemma percent_25_50: "f64_mul (Finite (1 / 2)) (Finite 100) = Finite 50"
  by code_simp

lemma fill_half_78: "f64_mul (Finite (1 / 2)) (f64_of_int 78) = Finite 39"
  by code_simp

lemma compile_percent_int: "compileLegend ''{percent_int}'' 2 = ''%[8]d''"
  by code_simp

lemma Itoa_50: "Itoa 50 = ''50''"
  by code_simp

lemma PercentInt_half:
  assumes "total p = 50" "done_items p = 0"
  shows "PercentInt (fst (Progress_Report impl now (Add 25 p))) = 50"
    and "Ratio (fst (Progress_Report impl now (Add 25 p))) = Finite (1 / 2)"
proof -
  have d: "done_items (Add 25 p) = 25" "total (Add 25 p) = 50"
    using assms by (simp_all add: Add_def wrap64_def)
  have t: "f64_to_int64 impl (Finite 50) = 50"
    by (simp add: f64_to_int64_def f64_val_def trunc_rat_def in_int64_def minInt64_def
        maxInt64_def)
  show "PercentInt (fst (Progress_Report impl now (Add 25 p))) = 50"
    by (simp add: Progress_Report_def Let_def d ratio_25_50 percent_25_50 t)
  show "Ratio (fst (Progress_Report impl now (Add 25 p))) = Finite (1 / 2)"
    by (simp add: Progress_Report_def Let_def d ratio_25_50)
qed

lemma concat_replicate_single: "concat (replicate n [x]) = replicate n x"
  by (induction n) simp_all

lemma bar_half_80:
  assumes "pbWidth r = 80" "Ratio rep = Finite (1 / 2)"
  shows "renderProgressBar impl r rep
           = Inr (''['' @ replicate 39 CHR ''#'' @ replicate 39 CHR ''-'' @ '']'')"
proof -
  have t: "f64_to_int64 impl (Finite 39) = 39"
    by (simp add: f64_to_int64_def f64_val_def trunc_rat_def in_int64_def minInt64_def
        maxInt64_def)
  have l: "\<not> f64_lt (Finite (1 / 2)) (Finite 0)"
    by (simp add: f64_lt_def f64_val_def)
  show ?thesis
    using assms
    by (simp add: renderProgressBar_def Let_def l wrap64_def fill_half_78 t Repeat_def
        bind_err_def maxInt64_def maxAlloc_def concat_replicate_single)
qed

text \<open>
  C1 as stated fails: 25 of 50 is 50 percent, and the reporter with the legend
  \<^verbatim>\<open>{percent_int}\<close> writes \<^verbatim>\<open>50\<close>.
\<close>

theorem render_percent_int_counterexample:
  "written 2 (TextReporter_Report indefinite half_done
      (WithLegend ''{percent_int}'' (NewTextReporter 2), empty_world)) \<noteq> Inr ''25''"
  by code_simp

text \<open>
  C1, amended. For a tracker with the total 50 and nothing done, after \<^verbatim>\<open>Add(25)\<close>
  a fresh text reporter with the legend \<^verbatim>\<open>{percent_int}\<close> renders the snapshot, taken
  at any time, by writing exactly \<^verbatim>\<open>50\<close> to its output.
\<close>

theorem render_percent_int:
  assumes "total p = 50" and "done_items p = 0"
  shows "written out (TextReporter_Report impl (fst (Progress_Report impl now (Add 25 p)))
           (WithLegend ''{percent_int}'' (NewTextReporter out), wo)) = Inr (sinks wo out @ ''50'')"
proof -
  let ?rep = "fst (Progress_Report impl now (Add 25 p))"
  let ?r = "WithLegend ''{percent_int}'' (NewTextReporter out)"
  have r: "legendCompiled ?r = []" "legend ?r = ''{percent_int}''" "floatPrecision ?r = 2"
    "pbWidth ?r = 80" "output_w ?r = out" "lastLegendLength ?r = 0"
    by (simp_all add: WithLegend_def clone_def NewTextReporter_def
        TextReporterDefaultFloatPrecision_def TextReporterDefaultProgressBarWidth_def)
  have pi: "PercentInt ?rep = 50" and ra: "Ratio ?rep = Finite (1 / 2)"
    using assms by (rule PercentInt_half)+
  have bar: "renderProgressBar impl (x\<lparr>legendCompiled := lc, writer := w\<rparr>) ?rep
      = Inr (''['' @ replicate 39 CHR ''#'' @ replicate 39 CHR ''-'' @ '']'')"
    if "pbWidth x = 80" for x lc w
    using that ra by (intro bar_half_80) simp_all
  show ?thesis
    by (simp add: written_def TextReporter_Report_def r NewWriter_def compile_percent_int
        bar time_Format_layout bind_err_def bind_at_def Let_def Sprintf_percent_int pi Itoa_50
        writeString_def flush_def split: prod.splits)
qed

theorem render_percent_int_witness:
  "total (fresh 50 ()) = 50 \<and> done_items (fresh 50 ()) = 0
   \<and> written 2 (TextReporter_Report indefinite
        (fst (Progress_Report indefinite (clock 1000000000) (Add 25 (fresh 50 ()))))
        (WithLegend ''{percent_int}'' (NewTextReporter 2), empty_world)) = Inr ''50''"
  using render_percent_int [of "fresh 50 ()" 2 indefinite "clock 1000000000" empty_world]
  by (simp add: fresh_def empty_world_def)

section \<open>The scheduler finalizes\<close>

lemma report_once_events:
  "events (report_once impl ops now s) = events s @ [CallReport (fst (Progress_Report impl now (tracker s)))]"
  by (simp add: report_once_def split: prod.splits sum.splits)

lemma report_once_status:
  "status s = Running \<Longrightarrow> status (report_once impl ops now s) = Running \<or> (\<exists>e. status (report_once impl ops now s) = Panicked e)"
  by (simp add: report_once_def split: prod.splits sum.splits)

lemma report_once_channel:
  "closed (report_once impl ops now s) = closed s
   \<and> doneCh (tracker (report_once impl ops now s)) = doneCh (tracker s)"
  by (simp add: report_once_def Progress_Report_def Let_def split: prod.splits sum.splits)

lemma deferred_trace:
  assumes "list_all is_report (events s)" "st = Returned \<or> (\<exists>e. st = Panicked e)"
  shows "scheduler_trace (events (deferred ops st s)) (status (deferred ops st s))"
  using assms
  by (auto simp: deferred_def split: sum.splits prod.splits option.splits
      intro: scheduler_trace.intros)

lemma deferred_finalized:
  "CallFinalize \<in> set (events (deferred ops st s))"
  by (simp add: deferred_def split: sum.splits prod.splits option.splits)

lemma deferred_fired:
  "CloseDone \<in> set (events (deferred ops st s)) \<Longrightarrow> list_all is_report (events s)
   \<Longrightarrow> done_fired (deferred ops st s)"
  by (auto simp: deferred_def done_fired_def Progress_Done_def list_all_iff
      split: sum.splits prod.splits if_splits option.splits)

lemma chan_loop_trace:
  "list_all is_report (events s) \<Longrightarrow> status s = Running
   \<Longrightarrow> scheduler_trace (events (chan_loop impl ops sigs s)) (status (chan_loop impl ops sigs s))"
proof (induction impl ops sigs s rule: chan_loop.induct)
  case (1 impl ops s)
  then show ?case by (simp add: scheduler_trace.running)
next
  case (2 impl ops n sigs s)
  then show ?case by simp
next
  case (3 impl ops sigs s)
  then show ?case by (simp add: deferred_trace)
next
  case (4 impl ops now sigs s)
  let ?s = "report_once impl ops now s"
  have r: "list_all is_report (events ?s)"
    using 4(3) by (simp add: report_once_events)
  consider "status ?s = Running" | e where "status ?s = Panicked e"
    using report_once_status [OF 4(4)] by blast
  then show ?case
  proof cases
    case 1
    then show ?thesis using 4(1) [OF refl _ r] by simp
  next
    case 2
    then show ?thesis using r by (simp add: deferred_trace)
  qed
qed

lemma chan_loop_cancelled:
  "Cancel \<in> set sigs \<Longrightarrow> CallFinalize \<in> set (events (chan_loop impl ops sigs s))"
proof (induction impl ops sigs s rule: chan_loop.induct)
  case (4 impl ops now sigs s)
  then show ?case
    by (cases "status (report_once impl ops now s)") (simp_all add: deferred_finalized)
qed (simp_all add: deferred_finalized)

lemma chan_loop_open:
  "doneCh (tracker s) = Some c \<Longrightarrow> c \<notin> closed s
   \<Longrightarrow> list_all is_report (events s) \<Longrightarrow> status s = Running
   \<Longrightarrow> status (chan_loop impl ops sigs s) = Returned
   \<Longrightarrow> CloseDone \<in> set (events (chan_loop impl ops sigs s)) \<and> done_fired (chan_loop impl ops sigs s)"
proof (induction impl ops sigs s rule: chan_loop.induct)
  case (1 impl ops s)
  then show ?case by simp
next
  case (2 impl ops n sigs s)
  then show ?case by (simp add: Add_def)
next
  case (3 impl ops sigs s)
  then show ?case
    by (auto simp: deferred_def done_fired_def Progress_Done_def
        split: sum.splits prod.splits if_splits)
next
  case (4 impl ops now sigs s)
  let ?s = "report_once impl ops now s"
  have r: "list_all is_report (events ?s)"
    using 4(5) by (simp add: report_once_events)
  have o: "doneCh (tracker ?s) = Some c" "c \<notin> closed ?s"
    using 4(3,4) by (simp_all add: report_once_channel)
  consider "status ?s = Running" | e where "status ?s = Panicked e"
    using report_once_status [OF 4(6)] by blast
  then show ?case
  proof cases
    case 1
    then show ?thesis using 4(1) [OF refl _ o r] 4(7) by simp
  next
    case 2
    then show ?thesis
      using 4(7)
      by (auto simp: deferred_def Let_def split: sum.splits prod.splits if_splits option.splits)
  qed
qed

lemma StartChan_trace:
  "scheduler_trace (events (StartChan impl ops now0 now1 sigs cl p))
     (status (StartChan impl ops now0 now1 sigs cl p))"
proof -
  let ?init = "\<lparr>tracker = p\<lparr>startedAt := now0, lastReportedAt := now0\<rparr>, events = [],
                status = Running, closed = cl\<rparr>"
  let ?s = "report_once impl ops now1 ?init"
  have r: "list_all is_report (events ?s)" by (simp add: report_once_events)
  have "status ?init = Running" by simp
  then consider "status ?s = Running" | e where "status ?s = Panicked e"
    using report_once_status by blast
  then show ?thesis
  proof cases
    case 1
    then show ?thesis using chan_loop_trace [OF r 1] by (simp add: StartChan_def)
  next
    case 2
    then show ?thesis using r by (simp add: StartChan_def deferred_trace)
  qed
qed

lemma StartChan_cancelled:
  "Cancel \<in> set sigs \<Longrightarrow> CallFinalize \<in> set (events (StartChan impl ops now0 now1 sigs cl p))"
  by (cases "status (report_once impl ops now1 \<lparr>tracker = p\<lparr>startedAt := now0, lastReportedAt := now0\<rparr>, events = [], status = Running, closed = cl\<rparr>)")
     (simp_all add: StartChan_def deferred_finalized chan_loop_cancelled)

lemma StartChan_open:
  assumes "doneCh p = Some c" "c \<notin> cl"
    and "status (StartChan impl ops now0 now1 sigs cl p) = Returned"
  shows "CloseDone \<in> set (events (StartChan impl ops now0 now1 sigs cl p))"
    and "done_fired (StartChan impl ops now0 now1 sigs cl p)"
proof -
  let ?init = "\<lparr>tracker = p\<lparr>startedAt := now0, lastReportedAt := now0\<rparr>, events = [],
                status = Running, closed = cl\<rparr>"
  let ?s = "report_once impl ops now1 ?init"
  have r: "list_all is_report (events ?s)" by (simp add: report_once_events)
  have o: "doneCh (tracker ?s) = Some c" "c \<notin> closed ?s"
    using assms(1,2) by (simp_all add: report_once_channel)
  have "status ?init = Running" by simp
  then consider "status ?s = Running" | e where "status ?s = Panicked e"
    using report_once_status by blast
  then have "CloseDone \<in> set (events (StartChan impl ops now0 now1 sigs cl p))
      \<and> done_fired (StartChan impl ops now0 now1 sigs cl p)"
  proof cases
    case 1
    then show ?thesis
      using chan_loop_open [OF o r 1, of impl ops sigs] assms(3) by (simp add: StartChan_def)
  next
    case 2
    then show ?thesis
      using assms(3)
      by (auto simp: StartChan_def deferred_def Let_def
          split: sum.splits prod.splits if_splits option.splits)
  qed
  then show "CloseDone \<in> set (events (StartChan impl ops now0 now1 sigs cl p))"
    and "done_fired (StartChan impl ops now0 now1 sigs cl p)"
    by simp_all
qed

lemma reports_count:
  "list_all is_report es \<Longrightarrow> count_list es CallFinalize = 0 \<and> count_list es CloseDone = 0"
  by (induction es) (auto elim: is_report.elims)

lemma trace_shape:
  assumes "scheduler_trace es st"
  shows "count_list es CallFinalize \<le> 1"
    and "CloseDone \<in> set es \<Longrightarrow> \<exists>pre. es = pre @ [CallFinalize, CloseDone] \<and> CallFinalize \<notin> set pre \<and> CloseDone \<notin> set pre"
    and "st \<noteq> Running \<Longrightarrow> count_list es CallFinalize = 1"
  using assms
  by (induction rule: scheduler_trace.induct)
     (auto dest!: reports_count simp: count_list_0_iff)

lemma report_once0_events:
  "events0 (report_once0 impl ops now s)
     = events0 s @ [CallReport (fst (Progress0_Report impl now (tracker0 s)))]"
  by (simp add: report_once0_def split: prod.splits sum.splits)

lemma ctx_loop_reports:
  "list_all is_report (events0 s) \<Longrightarrow> list_all is_report (events0 (ctx_loop impl ops sigs s))"
proof (induction impl ops sigs s rule: ctx_loop.induct)
  case (4 impl ops now sigs s)
  then show ?case
    by (cases "status0 (report_once0 impl ops now s)") (simp_all add: report_once0_events)
qed simp_all

text \<open>
  \<^verbatim>\<open>Start(ctx)\<close> of \<^verbatim>\<open>src/gopv.go\<close> never calls \<^verbatim>\<open>Finalize()\<close>: its goroutine only
  reports, whatever arrives and whatever the reporter does.
\<close>

lemma Start_only_reports:
  "list_all is_report (events0 (Start impl ops now0 now1 sigs p))"
proof -
  let ?s = "report_once0 impl ops now1
      \<lparr>tracker0 = p\<lparr>startedAt0 := now0, lastReportedAt0 := now0\<rparr>, events0 = [], status0 = Running\<rparr>"
  have r: "list_all is_report (events0 ?s)" by (simp add: report_once0_events)
  show ?thesis
    by (cases "status0 ?s") (simp_all add: Start_def r ctx_loop_reports)
qed

lemma Start_never_finalizes:
  "CallFinalize \<notin> set (events0 (Start impl ops now0 now1 sigs p))"
  using Start_only_reports [of impl ops now0 now1 sigs p] by (auto simp: list_all_iff)

text \<open>
  C7. The claim asks for one call of \<^verbatim>\<open>Finalize()\<close> when a started tracker is
  cancelled. The scheduler of \<^verbatim>\<open>src/gopv.go\<close>, which the claim cites, does not make it:
  \<^verbatim>\<open>Start(ctx)\<close> has the loop of \<^verbatim>\<open>StartChan\<close> and no deferred function, so when the run
  is cancelled its goroutine returns without a call of \<^verbatim>\<open>Finalize()\<close>, although the
  interface \<^verbatim>\<open>Reporter\<close> has the method, the text reporter implements it and
  \<^verbatim>\<open>StartChan\<close> calls it. A tracker of 50 items with the default text reporter, on
  which 25 items are added, the timer fires and the context is cancelled: the goroutine
  has returned, it has reported twice and not finalized, and the last byte written is the
  carriage return of the legend, not the line break of \<^verbatim>\<open>Finalize()\<close>.
\<close>

theorem Start_skips_Finalize:
  "status0 (Start indefinite (textReporter indefinite) (clock 0) (clock 1000000000) short_run
              (strip (fresh 50 (NewTextReporter 2, empty_world)))) = Returned
   \<and> map is_report (events0 (Start indefinite (textReporter indefinite) (clock 0)
              (clock 1000000000) short_run (strip (fresh 50 (NewTextReporter 2, empty_world)))))
       = [True, True]
   \<and> count_list (events0 (Start indefinite (textReporter indefinite) (clock 0) (clock 1000000000)
                    short_run (strip (fresh 50 (NewTextReporter 2, empty_world))))) CallFinalize = 0
   \<and> last (sinks (snd (reporter0 (tracker0 (Start indefinite (textReporter indefinite) (clock 0)
              (clock 1000000000) short_run (strip (fresh 50 (NewTextReporter 2, empty_world)))))))
           2) = CHR 0x0D"
  by code_simp

text \<open>
  The sibling \<^verbatim>\<open>StartChan\<close> (and \<^verbatim>\<open>StartCtx\<close>, which calls it) does what the claim says,
  whatever arrives and whatever the reporter does: \<^verbatim>\<open>Finalize()\<close> is called at most once,
  and exactly once when the goroutine has ended, by returning or by a panic, and when the
  cancellation was received; the completion channel is closed only directly after the
  call of \<^verbatim>\<open>Finalize()\<close> has returned, as the last thing the goroutine does; a goroutine
  that has returned has called \<^verbatim>\<open>Finalize()\<close>, and when nobody else had closed the
  channel (and the channel is not \<^verbatim>\<open>nil\<close>), it has closed it, so that a receive from
  \<^verbatim>\<open>Done()\<close> returns.
\<close>

lemma StartChan_finalizes:
  "(let es = events (StartChan impl ops now0 now1 sigs cl p);
        st = status (StartChan impl ops now0 now1 sigs cl p)
    in count_list es CallFinalize \<le> 1
       \<and> (CloseDone \<in> set es \<longrightarrow>
            (\<exists>pre. es = pre @ [CallFinalize, CloseDone]
                   \<and> CallFinalize \<notin> set pre \<and> CloseDone \<notin> set pre))
       \<and> (Cancel \<in> set sigs \<longrightarrow> count_list es CallFinalize = 1)
       \<and> (st \<noteq> Running \<longrightarrow> count_list es CallFinalize = 1)
       \<and> (st = Returned \<longrightarrow> (\<exists>c. doneCh p = Some c \<and> c \<notin> cl) \<longrightarrow>
            CloseDone \<in> set es \<and> done_fired (StartChan impl ops now0 now1 sigs cl p)))"
proof -
  let ?es = "events (StartChan impl ops now0 now1 sigs cl p)"
  note t = StartChan_trace [of impl ops now0 now1 sigs cl p]
  have a: "count_list ?es CallFinalize \<le> 1" using t by (rule trace_shape(1))
  have c: "count_list ?es CallFinalize = 1" if "Cancel \<in> set sigs"
  proof -
    have "count_list ?es CallFinalize \<noteq> 0"
      using StartChan_cancelled [OF that] by (simp add: count_list_0_iff)
    then show ?thesis using a by linarith
  qed
  show ?thesis
    using a c trace_shape(2) [OF t] trace_shape(3) [OF t]
      StartChan_open [of p _ cl impl ops now0 now1 sigs]
    by (auto simp: Let_def)
qed

text \<open>
  The run of the example under \<^verbatim>\<open>StartChan\<close>: the goroutine has returned, finalized and
  closed the channel, and the last byte written is the line break. On a channel that
  another tracker has closed, the \<^verbatim>\<open>close\<close> panics after the call of \<^verbatim>\<open>Finalize()\<close>.
  When the first \<^verbatim>\<open>Report\<close> of the text reporter panics (on the snapshot \<open>far_over\<close>, in
  \<^verbatim>\<open>renderProgressBar\<close>), the reporter has its writer by then: \<^verbatim>\<open>Finalize()\<close> writes the
  line break and the channel is closed. With the \<^verbatim>\<open>nil\<close> reporter both calls panic and the
  channel stays open.
\<close>

lemma StartChan_example:
  "status (StartChan indefinite (textReporter indefinite) (clock 0) (clock 1000000000) short_run
             {} (fresh 50 (NewTextReporter 2, empty_world))) = Returned
   \<and> map is_report (events (StartChan indefinite (textReporter indefinite) (clock 0)
             (clock 1000000000) short_run {} (fresh 50 (NewTextReporter 2, empty_world))))
       = [True, True, False, False]
   \<and> drop 2 (events (StartChan indefinite (textReporter indefinite) (clock 0)
             (clock 1000000000) short_run {} (fresh 50 (NewTextReporter 2, empty_world))))
       = [CallFinalize, CloseDone]
   \<and> last (sinks (snd (reporter (tracker (StartChan indefinite (textReporter indefinite) (clock 0)
             (clock 1000000000) short_run {} (fresh 50 (NewTextReporter 2, empty_world))))))
           2) = CHR 0x0A"
  by code_simp

lemma StartChan_closed_twice:
  "status (StartChan indefinite (textReporter indefinite) (clock 0) (clock 1000000000) short_run
             {0} (fresh 50 (NewTextReporter 2, empty_world)))
       = Panicked (Panic ''close of closed channel'')
   \<and> drop 2 (events (StartChan indefinite (textReporter indefinite) (clock 0)
             (clock 1000000000) short_run {0} (fresh 50 (NewTextReporter 2, empty_world))))
       = [CallFinalize]"
  by code_simp

lemma StartChan_report_panics:
  "status (StartChan indefinite (textReporter indefinite) (clock 0) (clock 1000000000) short_run
             {} (Add 200000000000000000 (fresh 1 (NewTextReporter 2, empty_world))))
       = Panicked (Panic ''strings: negative Repeat count'')
   \<and> map is_report (events (StartChan indefinite (textReporter indefinite) (clock 0)
             (clock 1000000000) short_run {}
             (Add 200000000000000000 (fresh 1 (NewTextReporter 2, empty_world)))))
       = [True, False, False]
   \<and> drop 1 (events (StartChan indefinite (textReporter indefinite) (clock 0)
             (clock 1000000000) short_run {}
             (Add 200000000000000000 (fresh 1 (NewTextReporter 2, empty_world)))))
       = [CallFinalize, CloseDone]
   \<and> done_fired (StartChan indefinite (textReporter indefinite) (clock 0)
             (clock 1000000000) short_run {}
             (Add 200000000000000000 (fresh 1 (NewTextReporter 2, empty_world))))
   \<and> sinks (snd (reporter (tracker (StartChan indefinite (textReporter indefinite) (clock 0)
             (clock 1000000000) short_run {}
             (Add 200000000000000000 (fresh 1 (NewTextReporter 2, empty_world)))))))
           2 = [CHR 0x0A]"
  by code_simp

lemma StartChan_nil_reporter:
  "status (StartChan indefinite nil_reporter (clock 0) (clock 1000000000) short_run {}
             (fresh 50 ())) = Panicked NilDereference
   \<and> map is_report (events (StartChan indefinite nil_reporter (clock 0) (clock 1000000000)
             short_run {} (fresh 50 ()))) = [True, False]
   \<and> \<not> done_fired (StartChan indefinite nil_reporter (clock 0) (clock 1000000000) short_run {}
             (fresh 50 ()))"
  by code_simp

section \<open>The estimated time\<close>

lemma f64_neq_zero: "f64_neq x (Finite 0) \<longleftrightarrow> f64_val x \<noteq> Some 0"
  by (cases x) (simp_all add: f64_neq_def f64_val_def)

lemma in_int64_mult_Second:
  assumes "in_int64 (n * Second)"
  shows "in_int64 n"
proof -
  have b: "- 9223372036854775808 \<le> n * 1000000000" "n * 1000000000 \<le> 9223372036854775807"
    using assms by (simp_all add: in_int64_def minInt64_def maxInt64_def Second_def)
  have "- 9223372036854775808 \<le> n \<and> n \<le> 9223372036854775807"
    using b by linarith
  then show ?thesis by (simp add: in_int64_def minInt64_def maxInt64_def)
qed

lemma f64_to_int64_val:
  "f64_val x = Some q \<Longrightarrow> in_int64 (trunc_rat q) \<Longrightarrow> f64_to_int64 impl x = trunc_rat q"
  by (simp add: f64_to_int64_def)

lemma RPSAvg_zero_total: "total p = 0 \<Longrightarrow> f64_val (RPSAvg (fst (Progress_Report impl now p))) = Some 0"
  by (simp add: Progress_Report_def zero_Report_def f64_val_def)

text \<open>
  C2 as stated fails: the conversion \<^verbatim>\<open>time.Duration(x)\<close> of the float quotient
  truncates, it does not round. For the tracker \<^verbatim>\<open>New(11)\<close> after \<^verbatim>\<open>Add(4)\<close>, one second
  after its start, the rate is 4, the quotient \<open>7 / 4\<close>, and the estimated time one
  second, not two.
\<close>

theorem ETA_truncated_counterexample:
  "f64_div (f64_of_int (wrap64 (total (Add 4 (fresh 11 ())) - done_items (Add 4 (fresh 11 ())))))
           (RPSAvg (fst (Progress_Report indefinite (clock 1000000000) (Add 4 (fresh 11 ())))))
     = Finite (7 / 4)
   \<and> ETA (fst (Progress_Report indefinite (clock 1000000000) (Add 4 (fresh 11 ()))))
       \<noteq> round (7 / 4 :: rat) * Second"
  by code_simp

text \<open>
  C2, amended. For every snapshot of \<^verbatim>\<open>Report()\<close>: the estimated time is 0 when the
  average rate is 0; otherwise it is the float quotient of \<open>total - done\<close> and the rate,
  truncated towards zero to whole seconds (while that is a \<^verbatim>\<open>Duration\<close>). It is not
  clamped: it is negative when more is done than the total says.
\<close>

theorem ETA_truncated:
  "(let rep = fst (Progress_Report impl now p);
        q = f64_div (f64_of_int (wrap64 (total p - done_items p))) (RPSAvg rep)
    in (f64_val (RPSAvg rep) = Some 0 \<longrightarrow> ETA rep = 0)
       \<and> (f64_val (RPSAvg rep) \<noteq> Some 0 \<longrightarrow>
            (\<forall>x. f64_val q = Some x \<longrightarrow> in_int64 (trunc_rat x * Second)
                 \<longrightarrow> ETA rep = trunc_rat x * Second)))"
proof (cases "total p = 0")
  case True
  then show ?thesis
    using RPSAvg_zero_total [OF True, of impl now]
    by (simp add: Let_def) (simp add: Progress_Report_def zero_Report_def)
next
  case False
  let ?rps = "f64_div (f64_of_int (done_items p)) (dur_Seconds (time_Sub now (startedAt p)))"
  have rps: "RPSAvg (fst (Progress_Report impl now p)) = ?rps"
    using False by (simp add: Progress_Report_def Let_def)
  have eta: "ETA (fst (Progress_Report impl now p)) =
      (if f64_neq ?rps (Finite 0)
       then wrap64 (f64_to_int64 impl (f64_div (f64_of_int (wrap64 (total p - done_items p))) ?rps) * Second)
       else 0)"
    using False by (simp add: Progress_Report_def Let_def)
  have "ETA (fst (Progress_Report impl now p)) = trunc_rat x * Second"
    if "f64_val ?rps \<noteq> Some 0"
      and "f64_val (f64_div (f64_of_int (wrap64 (total p - done_items p))) ?rps) = Some x"
      and "in_int64 (trunc_rat x * Second)" for x
  proof -
    have "f64_to_int64 impl (f64_div (f64_of_int (wrap64 (total p - done_items p))) ?rps) = trunc_rat x"
      using that(2) in_int64_mult_Second [OF that(3)] by (rule f64_to_int64_val)
    then show ?thesis
      using that(1,3) by (simp add: eta f64_neq_zero wrap64_id)
  qed
  then show ?thesis
    by (simp add: Let_def rps) (simp add: eta f64_neq_zero)
qed

theorem ETA_truncated_witness:
  "f64_val (RPSAvg (fst (Progress_Report indefinite (clock 1000000000) (Add 4 (fresh 11 ()))))) \<noteq> Some 0
   \<and> f64_val (f64_div (f64_of_int (wrap64 (total (Add 4 (fresh 11 ())) - done_items (Add 4 (fresh 11 ())))))
        (RPSAvg (fst (Progress_Report indefinite (clock 1000000000) (Add 4 (fresh 11 ())))))) = Some (7 / 4)
   \<and> in_int64 (trunc_rat (7 / 4) * Second)
   \<and> ETA (fst (Progress_Report indefinite (clock 1000000000) (Add 4 (fresh 11 ())))) = trunc_rat (7 / 4) * Second
   \<and> trunc_rat (7 / 4) * Second = 1000000000"
proof -
  have a: "f64_val (RPSAvg (fst (Progress_Report indefinite (clock 1000000000) (Add 4 (fresh 11 ()))))) \<noteq> Some 0"
    by code_simp
  have b: "f64_val (f64_div (f64_of_int (wrap64 (total (Add 4 (fresh 11 ())) - done_items (Add 4 (fresh 11 ())))))
        (RPSAvg (fst (Progress_Report indefinite (clock 1000000000) (Add 4 (fresh 11 ())))))) = Some (7 / 4)"
    by code_simp
  have c: "in_int64 (trunc_rat (7 / 4) * Second)" "trunc_rat (7 / 4) * Second = 1000000000"
    by code_simp+
  note t = ETA_truncated [of indefinite "clock 1000000000" "Add 4 (fresh 11 ())", unfolded Let_def]
  have "ETA (fst (Progress_Report indefinite (clock 1000000000) (Add 4 (fresh 11 ()))))
          = trunc_rat (7 / 4) * Second"
    using t a b c(1) by blast
  then show ?thesis
    using a b c by blast
qed

text \<open>
  A negative estimate: the tracker \<^verbatim>\<open>New(10)\<close> after \<^verbatim>\<open>Add(20)\<close>, two seconds after
  its start. The reporter prints it as \<^verbatim>\<open>0s\<close>.
\<close>

lemma ETA_negative_example:
  "ETA (fst (Progress_Report indefinite (clock 2000000000) (Add 20 (fresh 10 ())))) = - 1000000000
   \<and> written 2 (TextReporter_Report indefinite
        (fst (Progress_Report indefinite (clock 2000000000) (Add 20 (fresh 10 ()))))
        (WithLegend ''{eta}'' (NewTextReporter 2), empty_world)) = Inr ''0s''"
  by code_simp

section \<open>Facts about binary64 arithmetic\<close>

text \<open>
  \<open>ilog2\<close> is the binary logarithm rounded down; rounding gives a finite number below
  \<open>2\<^sup>1\<^sup>0\<^sup>2\<^sup>3\<close>, is exact on the integers up to \<open>2\<^sup>5\<^sup>3\<close>, and never goes below such an
  integer that the exact value has reached.
\<close>

lemma pow2_powi: "pow2 e = 2 powi e"
  by (simp add: pow2_def power_int_def power_one_over)

lemma pow2_pos: "0 < pow2 e"
  by (simp add: pow2_powi)

lemma pow2_add: "pow2 (a + b) = pow2 a * pow2 b"
  by (simp add: pow2_powi power_int_add)

lemma pow2_mono: "a \<le> b \<Longrightarrow> pow2 a \<le> pow2 b"
  by (simp add: pow2_powi power_int_increasing)

lemma pow2_less_imp: "pow2 a < pow2 b \<Longrightarrow> a < b"
  using pow2_mono [of b a] by (cases "a < b") auto

lemma pow2_nat: "pow2 (int n) = 2 ^ n"
  by (simp add: pow2_def)

lemma bitlen_nonneg: "0 \<le> bitlen n"
  by (induction n rule: bitlen.induct) (subst bitlen.simps, simp)

lemma bitlen_pos: "0 < n \<Longrightarrow> 0 < bitlen n"
  using bitlen_nonneg [of "n div 2"] by (subst bitlen.simps) simp

lemma bitlen_bounds:
  "0 < n \<Longrightarrow> 2 ^ nat (bitlen n - 1) \<le> n \<and> n < 2 ^ nat (bitlen n)"
proof (induction n rule: bitlen.induct)
  case (1 n)
  show ?case
  proof (cases "n = 1")
    case True
    have "bitlen 1 = 1" by (simp add: bitlen.simps)
    then show ?thesis using True by simp
  next
    case False
    then have h: "0 < n div 2" using 1(2) by simp
    have b: "bitlen n = 1 + bitlen (n div 2)" using 1(2) by (subst bitlen.simps) simp
    have ih: "2 ^ nat (bitlen (n div 2) - 1) \<le> n div 2 \<and> n div 2 < 2 ^ nat (bitlen (n div 2))"
      using 1(1) 1(2) h by simp
    have p: "0 < bitlen (n div 2)" using h by (rule bitlen_pos)
    have e1: "nat (bitlen n - 1) = Suc (nat (bitlen (n div 2) - 1))" using b p by simp
    have e2: "nat (bitlen n) = Suc (nat (bitlen (n div 2)))" using b p by simp
    show ?thesis using ih unfolding e1 e2 by simp linarith
  qed
qed


lemma pow2_diff: "pow2 (a - b) = pow2 a / pow2 b"
  by (simp add: pow2_powi power_int_diff)

lemma bitlen_bounds_rat:
  assumes "0 < n"
  shows "pow2 (bitlen n - 1) \<le> of_int n" and "of_int n < pow2 (bitlen n)"
proof -
  have p: "0 < bitlen n" using assms by (rule bitlen_pos)
  have "(2::int) ^ nat (bitlen n - 1) \<le> n" and "n < 2 ^ nat (bitlen n)"
    using bitlen_bounds [OF assms] by simp_all
  then have "rat_of_int (2 ^ nat (bitlen n - 1)) \<le> of_int n"
    and "rat_of_int n < of_int (2 ^ nat (bitlen n))"
    by (simp_all only: of_int_le_iff of_int_less_iff)
  then show "pow2 (bitlen n - 1) \<le> of_int n" and "of_int n < pow2 (bitlen n)"
    using p by (simp_all add: pow2_def)
qed

lemma ilog2_bounds:
  assumes "0 < q"
  shows "pow2 (ilog2 q) \<le> q" and "q < pow2 (ilog2 q + 1)"
proof -
  obtain n d where nd: "quotient_of q = (n, d)" by (cases "quotient_of q")
  have d: "0 < d" using nd by (rule quotient_of_denom_pos)
  have q: "q = of_int n / of_int d" using nd by (rule quotient_of_div)
  have n: "0 < n" using assms d q by (simp add: zero_less_divide_iff)
  let ?e = "bitlen n - bitlen d"
  have up: "q < pow2 (?e + 1)"
  proof -
    have "of_int n / of_int d < pow2 (bitlen n) / pow2 (bitlen d - 1)"
      using bitlen_bounds_rat [OF n] bitlen_bounds_rat [OF d] n pow2_pos [of "bitlen d - 1"]
      by (intro frac_less) simp_all
    also have "\<dots> = pow2 (?e + 1)"
      using pow2_diff [of "bitlen n" "bitlen d - 1"] by (simp add: algebra_simps)
    finally show ?thesis by (simp add: q)
  qed
  have lo: "pow2 (?e - 1) < q"
  proof -
    have "pow2 (bitlen n - 1) / pow2 (bitlen d) < of_int n / of_int d"
      using bitlen_bounds_rat [OF n] bitlen_bounds_rat [OF d] d pow2_pos [of "bitlen n - 1"]
      by (intro frac_less2) simp_all
    moreover have "pow2 (bitlen n - 1) / pow2 (bitlen d) = pow2 (?e - 1)"
      using pow2_diff [of "bitlen n - 1" "bitlen d"] by (simp add: algebra_simps)
    ultimately show ?thesis by (simp add: q)
  qed
  have i: "ilog2 q = (if pow2 ?e \<le> q then ?e else ?e - 1)"
    by (simp add: ilog2_def nd Let_def)
  show "pow2 (ilog2 q) \<le> q" using lo by (simp add: i)
  show "q < pow2 (ilog2 q + 1)" using up by (simp add: i)
qed

lemma ilog2_less: "0 < q \<Longrightarrow> q < pow2 k \<Longrightarrow> ilog2 q < k"
  using ilog2_bounds(1) [of q] pow2_less_imp [of "ilog2 q" k] by simp

lemma ilog2_ge: "0 < q \<Longrightarrow> pow2 k \<le> q \<Longrightarrow> k \<le> ilog2 q"
  using ilog2_bounds(2) [of q] pow2_less_imp [of k "ilog2 q + 1"] by simp

lemma round_half_even_int [simp]: "round_half_even (of_int k) = k"
  by (simp add: round_half_even_def)

lemma round_half_even_ge: "of_int k \<le> x \<Longrightarrow> k \<le> round_half_even x"
proof -
  assume "of_int k \<le> x"
  then have "k \<le> \<lfloor>x\<rfloor>" by (simp add: le_floor_iff)
  then show ?thesis by (simp add: round_half_even_def Let_def)
qed

lemma round_half_even_le: "x \<le> of_int k \<Longrightarrow> round_half_even x \<le> k"
proof -
  assume a: "x \<le> of_int k"
  show ?thesis
  proof (cases "x = of_int k")
    case True
    then show ?thesis by simp
  next
    case False
    then have "x < of_int k" using a by simp
    then have "\<lfloor>x\<rfloor> < k" by (simp add: floor_less_iff)
    then show ?thesis by (simp add: round_half_even_def Let_def)
  qed
qed


lemma ilog2_one_le: "1 \<le> q \<Longrightarrow> 0 \<le> ilog2 q"
  by (rule ilog2_ge) (simp_all add: pow2_def)

lemma f64_round_finite:
  assumes "0 < q" "q < pow2 1023"
  shows "\<exists>v. f64_round q = Finite v \<and> 0 \<le> v"
proof -
  let ?e = "max (ilog2 q) (- 1022)"
  have a: "\<bar>q\<bar> = q" using assms(1) by simp
  have e: "?e < 1023" "?e \<noteq> 1023" "\<not> 1023 < ?e" using ilog2_less [OF assms] by simp_all
  have "0 \<le> round_half_even (q / pow2 (?e - 52))"
    using pow2_pos [of "?e - 52"] assms(1) by (intro round_half_even_ge) simp
  then have "0 \<le> rat_of_int (round_half_even (q / pow2 (?e - 52))) * pow2 (?e - 52)"
    using pow2_pos [of "?e - 52"] by simp
  then show ?thesis
    using assms(1) e unfolding f64_round_def Let_def a by simp
qed

lemma f64_round_pos_int:
  assumes "0 < n" "n \<le> 2 ^ 53"
  shows "f64_round (of_int n) = Finite (of_int n)"
proof -
  let ?q = "rat_of_int n"
  have q1: "1 \<le> ?q" using assms(1) by simp
  have q: "0 < ?q" using assms(1) by simp
  have "?q < pow2 54" using assms(2) by (simp add: pow2_def)
  then have e54: "ilog2 ?q < 54" using q by (intro ilog2_less)
  have e0: "0 \<le> ilog2 ?q" using q1 by (rule ilog2_one_le)
  let ?e = "ilog2 ?q"
  have m: "max ?e (- 1022) = ?e" using e0 by simp
  have a: "\<bar>?q\<bar> = ?q" using q by simp
  have "rat_of_int (round_half_even (?q / pow2 (?e - 52))) * pow2 (?e - 52) = ?q
        \<and> round_half_even (?q / pow2 (?e - 52)) \<noteq> 0"
  proof (cases "?e \<le> 52")
    case True
    then have u: "pow2 (?e - 52) = 1 / of_int (2 ^ nat (52 - ?e))"
      by (auto simp: pow2_def)
    have "?q / pow2 (?e - 52) = of_int (n * 2 ^ nat (52 - ?e))"
      by (simp add: u)
    then have r: "round_half_even (?q / pow2 (?e - 52)) = n * 2 ^ nat (52 - ?e)"
      by (simp only: round_half_even_int)
    show ?thesis using assms(1) by (simp add: r) (simp add: u)
  next
    case False
    then have e: "?e = 53" using e54 by simp
    have "pow2 53 \<le> ?q" using ilog2_bounds(1) [OF q] by (simp add: e)
    then have "2 ^ 53 \<le> n" by (simp add: pow2_def)
    then have n: "n = 2 ^ 53" using assms(2) by simp
    have u2: "pow2 (?e - 52) = 2" unfolding e by (simp add: pow2_def)
    have "?q / 2 = of_int (2 ^ 52)" by (simp add: n)
    then have r: "round_half_even (?q / 2) = 2 ^ 52"
      by (simp only: round_half_even_int)
    show ?thesis unfolding u2 r by (simp add: n)
  qed
  then show ?thesis
    using q e54 unfolding f64_round_def Let_def a m by simp
qed

lemma f64_round_ge_int:
  assumes "0 < k" "k \<le> 2 ^ 53" "of_int k \<le> q"
  shows "f64_round q = PInf \<or> (\<exists>v. f64_round q = Finite v \<and> of_int k \<le> v)"
proof -
  have q1: "1 \<le> q" using assms(1,3) by (meson int_one_le_iff_zero_less of_int_1_le_iff order_trans)
  then have q: "0 < q" by simp
  let ?e = "ilog2 q"
  have e0: "0 \<le> ?e" using q1 by (rule ilog2_one_le)
  have m: "max (ilog2 q) (- 1022) = ?e" using e0 by simp
  have a: "\<bar>q\<bar> = q" using q by simp
  let ?u = "pow2 (?e - 52)"
  let ?m = "round_half_even (q / ?u)"
  have up: "0 < ?u" by (rule pow2_pos)
  have "of_int k \<le> of_int ?m * ?u \<and> ?m \<noteq> 0"
  proof (cases "?e \<le> 52")
    case True
    then have u: "?u = 1 / of_int (2 ^ nat (52 - ?e))"
      by (auto simp: pow2_def)
    have "rat_of_int (k * 2 ^ nat (52 - ?e)) = of_int k / ?u" by (simp add: u)
    also have "\<dots> \<le> q / ?u" using assms(3) up by (simp add: divide_right_mono)
    finally have g: "k * 2 ^ nat (52 - ?e) \<le> ?m" by (rule round_half_even_ge)
    have "0 < k * 2 ^ nat (52 - ?e)" using assms(1) by simp
    then have nz: "?m \<noteq> 0" using g by linarith
    have g': "rat_of_int (k * 2 ^ nat (52 - ?e)) \<le> of_int ?m"
      using g by (simp only: of_int_le_iff)
    have "rat_of_int k = of_int (k * 2 ^ nat (52 - ?e)) * ?u" by (simp add: u)
    also have "\<dots> \<le> of_int ?m * ?u"
      using g' up by (intro mult_right_mono) simp_all
    finally show ?thesis using nz by simp
  next
    case False
    then have e53: "53 \<le> ?e" by simp
    have "pow2 52 * ?u = pow2 ?e" using pow2_add [of 52 "?e - 52"] by simp
    then have "pow2 52 = pow2 ?e / ?u" using up by (simp add: field_simps)
    also have "\<dots> \<le> q / ?u" using ilog2_bounds(1) [OF q] up by (simp add: divide_right_mono)
    finally have "rat_of_int (2 ^ 52) \<le> q / ?u" by (simp add: pow2_def)
    then have g: "2 ^ 52 \<le> ?m" by (rule round_half_even_ge)
    have "(0::int) < 2 ^ 52" by simp
    then have nz: "?m \<noteq> 0" using g by linarith
    have g': "rat_of_int (2 ^ 52) \<le> of_int ?m"
      using g by (simp only: of_int_le_iff)
    have "rat_of_int k \<le> pow2 53" using assms(2) by (simp add: pow2_def)
    also have "\<dots> \<le> pow2 ?e" using e53 by (rule pow2_mono)
    also have "\<dots> = of_int (2 ^ 52) * ?u" using pow2_add [of 52 "?e - 52"] by (simp add: pow2_def)
    also have "\<dots> \<le> of_int ?m * ?u"
      using g' up by (intro mult_right_mono) simp_all
    finally show ?thesis using nz by simp
  qed
  then show ?thesis
    using q unfolding f64_round_def Let_def a m by simp
qed


lemma f64_round_neg_int:
  assumes "0 < n" "n \<le> 2 ^ 53"
  shows "f64_round (- of_int n) = Finite (- of_int n)"
proof -
  let ?q = "rat_of_int n"
  have q: "0 < ?q" using assms(1) by simp
  have a: "\<bar>- ?q\<bar> = ?q" using q by simp
  let ?e = "max (ilog2 ?q) (- 1022)"
  let ?m = "round_half_even (?q / pow2 (?e - 52))"
  have p: "f64_round ?q = Finite ?q" using assms by (rule f64_round_pos_int)
  have nz: "- ?q \<noteq> 0" "\<not> 0 < - ?q" "?q \<noteq> 0" using q by simp_all
  have o: "\<not> (1023 < ?e \<or> ?e = 1023 \<and> 2 ^ 53 \<le> ?m)"
    using p q unfolding f64_round_def Let_def abs_of_pos [OF q] by (auto split: if_splits)
  have m0: "?m \<noteq> 0"
    using p q unfolding f64_round_def Let_def abs_of_pos [OF q] by (auto split: if_splits)
  have v: "of_int ?m * pow2 (?e - 52) = ?q"
    using p q o m0 unfolding f64_round_def Let_def abs_of_pos [OF q] by (simp split: if_splits)
  show ?thesis
    unfolding f64_round_def Let_def a using nz o m0 v by simp
qed

lemma f64_of_int_exact:
  assumes "\<bar>n\<bar> \<le> 2 ^ 53"
  shows "f64_of_int n = Finite (of_int n)"
proof -
  consider "n = 0" | "0 < n" | "n < 0" by linarith
  then show ?thesis
  proof cases
    case 1
    then show ?thesis by (simp add: f64_of_int_def f64_round_def)
  next
    case 2
    then show ?thesis using assms f64_round_pos_int [of n] by (simp add: f64_of_int_def)
  next
    case 3
    then show ?thesis
      using assms f64_round_neg_int [of "- n"] by (simp add: f64_of_int_def)
  qed
qed

lemma f64_of_int_finite:
  assumes "0 < n" "n \<le> 2 ^ 63"
  shows "\<exists>v. f64_of_int n = Finite v \<and> 0 \<le> v"
proof -
  have "rat_of_int n \<le> of_int (2 ^ 63)" using assms(2) by (simp only: of_int_le_iff)
  also have "\<dots> < pow2 1023" by (simp add: pow2_def)
  finally show ?thesis
    using assms(1) by (simp add: f64_of_int_def f64_round_finite)
qed


subsection \<open>Signs\<close>

lemma round_half_even_nonneg: "0 \<le> x \<Longrightarrow> 0 \<le> round_half_even x"
  by (simp add: round_half_even_def Let_def)

lemma f64_round_nonneg:
  assumes "0 \<le> q"
  shows "f64_round q = PInf \<or> (\<exists>v. f64_round q = Finite v \<and> 0 \<le> v)"
proof (cases "q = 0")
  case True
  then show ?thesis by (simp add: f64_round_def)
next
  case False
  then have q: "0 < q" using assms by simp
  let ?e = "max (ilog2 \<bar>q\<bar>) (- 1022)"
  have "0 \<le> round_half_even (\<bar>q\<bar> / pow2 (?e - 52))"
    using pow2_pos [of "?e - 52"] by (intro round_half_even_nonneg) simp
  then have "0 \<le> rat_of_int (round_half_even (\<bar>q\<bar> / pow2 (?e - 52))) * pow2 (?e - 52)"
    using pow2_pos [of "?e - 52"] by simp
  then show ?thesis
    using q by (simp add: f64_round_def Let_def)
qed

lemma f64_of_int_nonneg: "0 \<le> n \<Longrightarrow> f64_nonneg (f64_of_int n)"
  using f64_round_nonneg [of "of_int n"] by (simp add: f64_nonneg_def f64_of_int_def)

lemma f64_of_int_pos:
  assumes "0 < n"
  shows "f64_of_int n = PInf \<or> (\<exists>v. f64_of_int n = Finite v \<and> 0 \<le> v)"
  using f64_round_nonneg [of "of_int n"] assms by (simp add: f64_of_int_def)

lemma f64_nonneg_cases:
  assumes "f64_nonneg x"
  obtains "x = PInf" | v where "x = Finite v" "0 \<le> v"
  using assms by (auto simp: f64_nonneg_def)

lemma f64_round_nonneg':
  "0 \<le> q \<Longrightarrow> f64_nonneg (f64_round q)"
  using f64_round_nonneg [of q] by (simp add: f64_nonneg_def)

lemma f64_div_nonneg:
  assumes "f64_nonneg x" "f64_nonneg y"
  shows "f64_div x y = NaN \<or> f64_nonneg (f64_div x y)"
proof -
  consider (ii) "x = PInf" "y = PInf"
    | (inf_fin) b where "x = PInf" "y = Finite b" "0 \<le> b"
    | (fin_inf) a where "x = Finite a" "0 \<le> a" "y = PInf"
    | (fin_fin) a b where "x = Finite a" "0 \<le> a" "y = Finite b" "0 \<le> b"
    using assms by (auto simp: f64_nonneg_def)
  then show ?thesis
  proof cases
    case fin_fin
    have "f64_nonneg (f64_round (a / b))"
      using fin_fin by (intro f64_round_nonneg') simp
    then show ?thesis
      using fin_fin
      by (simp add: f64_div_def f64_val_def f64_is_neg_def f64_signed_zero_def
          f64_signed_inf_def f64_nonneg_def)
  qed (simp_all add: f64_div_def f64_val_def f64_is_neg_def f64_signed_zero_def
        f64_signed_inf_def f64_nonneg_def)
qed

lemma f64_mul_nonneg:
  assumes "f64_nonneg x" "f64_nonneg y"
  shows "f64_mul x y = NaN \<or> f64_nonneg (f64_mul x y)"
proof -
  consider (ii) "x = PInf" "y = PInf"
    | (inf_fin) b where "x = PInf" "y = Finite b" "0 \<le> b"
    | (fin_inf) a where "x = Finite a" "0 \<le> a" "y = PInf"
    | (fin_fin) a b where "x = Finite a" "0 \<le> a" "y = Finite b" "0 \<le> b"
    using assms by (auto simp: f64_nonneg_def)
  then show ?thesis
  proof cases
    case fin_fin
    have "f64_nonneg (f64_round (a * b))"
      using fin_fin by (intro f64_round_nonneg') simp
    then show ?thesis
      using fin_fin
      by (simp add: f64_mul_def f64_val_def f64_is_neg_def f64_signed_zero_def
          f64_signed_inf_def f64_nonneg_def)
  qed (simp_all add: f64_mul_def f64_val_def f64_is_neg_def f64_signed_zero_def
        f64_signed_inf_def f64_nonneg_def)
qed

lemma f64_nonneg_val: "f64_nonneg x \<Longrightarrow> f64_val x = Some q \<Longrightarrow> 0 \<le> q"
  by (auto simp: f64_nonneg_def f64_val_def)

lemma percent_nonneg:
  assumes "0 \<le> d" "0 \<le> t"
    and "f64_val (f64_mul (f64_div (f64_of_int d) (f64_of_int t)) (Finite 100)) = Some q"
  shows "0 \<le> q"
proof -
  have h: "f64_nonneg (Finite 100)" by (simp add: f64_nonneg_def)
  have "f64_div (f64_of_int d) (f64_of_int t) = NaN \<or> f64_nonneg (f64_div (f64_of_int d) (f64_of_int t))"
    using assms(1,2) by (intro f64_div_nonneg f64_of_int_nonneg)
  moreover have "f64_mul NaN (Finite 100) = NaN" by (simp add: f64_mul_def)
  ultimately have "f64_mul (f64_div (f64_of_int d) (f64_of_int t)) (Finite 100) = NaN
      \<or> f64_nonneg (f64_mul (f64_div (f64_of_int d) (f64_of_int t)) (Finite 100))"
    using f64_mul_nonneg [OF _ h] by metis
  then show ?thesis
    using assms(3) by (auto simp: f64_val_def dest: f64_nonneg_val)
qed

section \<open>The fields of the snapshot\<close>

text \<open>
  C4 as stated fails: the conversion \<^verbatim>\<open>int(ratio * 100)\<close> truncates towards zero, it is
  not the floor. \<^verbatim>\<open>Add\<close> takes negative numbers: for the tracker \<^verbatim>\<open>New(256)\<close> after
  \<^verbatim>\<open>Add(-1)\<close> the product \<^verbatim>\<open>ratio * 100\<close> is \<open>- 25 / 64\<close>, whose floor is \<open>- 1\<close>, and
  the integer percent is 0.
\<close>

theorem snapshot_fields_counterexample:
  "f64_mul (Ratio (fst (Progress_Report indefinite (clock 1000000000) (Add (- 1) (fresh 256 ())))))
           (Finite 100) = Finite (- (25 / 64))
   \<and> PercentInt (fst (Progress_Report indefinite (clock 1000000000) (Add (- 1) (fresh 256 ()))))
       \<noteq> \<lfloor>- (25 / 64) :: rat\<rfloor>"
  by code_simp

text \<open>
  C4, amended. For every snapshot of \<^verbatim>\<open>Report()\<close> on a tracker whose total is not 0:
  the ratio is the float quotient of \<open>done\<close> and \<open>total\<close>, which for \<open>done\<close> and \<open>total\<close>
  up to \<open>2\<^sup>5\<^sup>3\<close> is the binary64 number nearest to \<open>done / total\<close>; the integer percent
  is the float product \<^verbatim>\<open>ratio * 100\<close> truncated towards zero, while that is an
  \<^verbatim>\<open>int64\<close>, which is its floor when \<open>done\<close> is not negative and the total positive; and
  \<open>left\<close> is \<open>total - done\<close> while that is an \<^verbatim>\<open>int64\<close> (it is negative when more is done
  than the total says).
\<close>

theorem snapshot_fields:
  assumes "total p \<noteq> 0"
  shows "(let rep = fst (Progress_Report impl now p)
          in Ratio rep = f64_div (f64_of_int (done_items p)) (f64_of_int (total p))
             \<and> (\<bar>done_items p\<bar> \<le> 2 ^ 53 \<longrightarrow> \<bar>total p\<bar> \<le> 2 ^ 53 \<longrightarrow> done_items p \<noteq> 0
                  \<longrightarrow> Ratio rep = f64_round (of_int (done_items p) / of_int (total p)))
             \<and> (\<forall>x. f64_val (f64_mul (Ratio rep) (Finite 100)) = Some x \<longrightarrow> in_int64 (trunc_rat x)
                  \<longrightarrow> PercentInt rep = trunc_rat x
                      \<and> (0 \<le> done_items p \<longrightarrow> 0 < total p \<longrightarrow> PercentInt rep = \<lfloor>x\<rfloor>))
             \<and> (in_int64 (total p - done_items p) \<longrightarrow> Left rep = total p - done_items p))"
proof -
  let ?ratio = "f64_div (f64_of_int (done_items p)) (f64_of_int (total p))"
  have ra: "Ratio (fst (Progress_Report impl now p)) = ?ratio"
    and pi: "PercentInt (fst (Progress_Report impl now p))
               = f64_to_int64 impl (f64_mul ?ratio (Finite 100))"
    and le: "Left (fst (Progress_Report impl now p)) = wrap64 (total p - done_items p)"
    using assms by (simp_all add: Progress_Report_def Let_def)
  have exact: "?ratio = f64_round (of_int (done_items p) / of_int (total p))"
    if "\<bar>done_items p\<bar> \<le> 2 ^ 53" "\<bar>total p\<bar> \<le> 2 ^ 53" "done_items p \<noteq> 0"
    using that assms
    by (simp add: f64_of_int_exact f64_div_def f64_val_def)
  have main: "PercentInt (fst (Progress_Report impl now p)) = trunc_rat x
        \<and> (0 \<le> done_items p \<longrightarrow> 0 < total p
             \<longrightarrow> PercentInt (fst (Progress_Report impl now p)) = \<lfloor>x\<rfloor>)"
    if v: "f64_val (f64_mul ?ratio (Finite 100)) = Some x" and i: "in_int64 (trunc_rat x)" for x
  proof -
    have t: "PercentInt (fst (Progress_Report impl now p)) = trunc_rat x"
      using v i by (simp add: pi f64_to_int64_def)
    have "trunc_rat x = \<lfloor>x\<rfloor>" if "0 \<le> done_items p" "0 < total p"
      using percent_nonneg [OF that(1) _ v] that(2) by (simp add: trunc_rat_def)
    then show ?thesis using t by simp
  qed
  have left: "in_int64 (total p - done_items p) \<longrightarrow>
      Left (fst (Progress_Report impl now p)) = total p - done_items p"
    by (simp add: le wrap64_id)
  show ?thesis
    unfolding Let_def ra using main left exact by blast
qed

text \<open>
  With 29 of 100 done the nearest binary64 number to \<open>29 / 100\<close> lies below it, the
  product with 100 lies below 29, and the integer percent is 28.
\<close>

theorem snapshot_fields_witness:
  "total (Add 29 (fresh 100 ())) \<noteq> 0
   \<and> \<bar>done_items (Add 29 (fresh 100 ()))\<bar> \<le> 2 ^ 53 \<and> \<bar>total (Add 29 (fresh 100 ()))\<bar> \<le> 2 ^ 53
   \<and> done_items (Add 29 (fresh 100 ())) \<noteq> 0
   \<and> Ratio (fst (Progress_Report indefinite (clock 1000000000) (Add 29 (fresh 100 ()))))
       = f64_round (29 / 100)
   \<and> f64_val (f64_mul (Ratio (fst (Progress_Report indefinite (clock 1000000000) (Add 29 (fresh 100 ())))))
        (Finite 100)) = Some (8162774324609023 / 281474976710656)
   \<and> in_int64 (trunc_rat (8162774324609023 / 281474976710656))
   \<and> 0 \<le> done_items (Add 29 (fresh 100 ())) \<and> 0 < total (Add 29 (fresh 100 ()))
   \<and> PercentInt (fst (Progress_Report indefinite (clock 1000000000) (Add 29 (fresh 100 ()))))
       = \<lfloor>8162774324609023 / 281474976710656 :: rat\<rfloor>
   \<and> \<lfloor>8162774324609023 / 281474976710656 :: rat\<rfloor> = 28
   \<and> in_int64 (total (Add 29 (fresh 100 ())) - done_items (Add 29 (fresh 100 ())))
   \<and> Left (fst (Progress_Report indefinite (clock 1000000000) (Add 29 (fresh 100 ())))) = 71"
proof -
  let ?p = "Add 29 (fresh 100 ())"
  let ?rep = "fst (Progress_Report indefinite (clock 1000000000) ?p)"
  have f: "total ?p = 100" "done_items ?p = 29"
    by (simp_all add: Add_def fresh_def wrap64_def)
  have v: "f64_val (f64_mul (Ratio ?rep) (Finite 100)) = Some (8162774324609023 / 281474976710656)"
    by code_simp
  have i: "in_int64 (trunc_rat (8162774324609023 / 281474976710656))"
    "\<lfloor>8162774324609023 / 281474976710656 :: rat\<rfloor> = 28"
    by code_simp+
  have l: "in_int64 (total ?p - done_items ?p)"
    by (simp add: f in_int64_def minInt64_def maxInt64_def)
  note t = snapshot_fields [of ?p indefinite "clock 1000000000", unfolded Let_def]
  have t0: "total ?p \<noteq> 0" by (simp add: f)
  have "\<bar>done_items ?p\<bar> \<le> 2 ^ 53 \<longrightarrow> \<bar>total ?p\<bar> \<le> 2 ^ 53 \<longrightarrow> done_items ?p \<noteq> 0
          \<longrightarrow> Ratio ?rep = f64_round (of_int (done_items ?p) / of_int (total ?p))"
    using t [OF t0] by blast
  then have r: "Ratio ?rep = f64_round (29 / 100)"
    by (simp add: f)
  have "\<forall>x. f64_val (f64_mul (Ratio ?rep) (Finite 100)) = Some x \<longrightarrow> in_int64 (trunc_rat x)
          \<longrightarrow> PercentInt ?rep = trunc_rat x
              \<and> (0 \<le> done_items ?p \<longrightarrow> 0 < total ?p \<longrightarrow> PercentInt ?rep = \<lfloor>x\<rfloor>)"
    using t [OF t0] by blast
  then have "0 \<le> done_items ?p \<longrightarrow> 0 < total ?p
      \<longrightarrow> PercentInt ?rep = \<lfloor>8162774324609023 / 281474976710656 :: rat\<rfloor>"
    using v i(1) by blast
  then have pi: "PercentInt ?rep = \<lfloor>8162774324609023 / 281474976710656 :: rat\<rfloor>"
    by (simp add: f)
  have "in_int64 (total ?p - done_items ?p) \<longrightarrow> Left ?rep = total ?p - done_items ?p"
    using t [OF t0] by blast
  then have le: "Left ?rep = 71"
    using l by (simp add: f)
  show ?thesis
    using t0 r v i pi l le by (simp add: f)
qed



section \<open>The progress bar\<close>

text \<open>
  C3. The claim asks for a number of \<^verbatim>\<open>#\<close> that is clamped to the interior from both
  sides, and for an interior of \<^verbatim>\<open>#\<close> only when the ratio is at least 1.
  \<^verbatim>\<open>renderProgressBar\<close> clamps the ratio from below, \<^verbatim>\<open>fillChars\<close> from above and
  \<^verbatim>\<open>fillSpaces\<close> from below, and misses \<^verbatim>\<open>fillChars\<close> from below. When the product of
  the ratio and the interior is \<open>2\<^sup>6\<^sup>3\<close> or more, its conversion to \<^verbatim>\<open>int\<close> is the smallest
  \<^verbatim>\<open>int64\<close> on amd64, which is not above the interior, and \<^verbatim>\<open>strings.Repeat\<close> panics on
  the negative count. The tracker \<^verbatim>\<open>New(1)\<close> after \<^verbatim>\<open>Add(200000000000000000)\<close> has the
  ratio \<open>2 \<cdot> 10\<^sup>1\<^sup>7\<close>; at the default width 80 the bar is not \<^verbatim>\<open>[\<close>, 78 times \<^verbatim>\<open>#\<close>,
  \<^verbatim>\<open>]\<close>: the call panics, and with it \<^verbatim>\<open>Report\<close> of the reporter, whatever its legend,
  as it renders the bar for every legend.
\<close>

theorem fill_below_zero_panics:
  "Ratio far_over = Finite 200000000000000000
   \<and> renderProgressBar indefinite (NewTextReporter 2) far_over
       = Inl (Panic ''strings: negative Repeat count'')
   \<and> renderProgressBar indefinite (NewTextReporter 2) far_over \<noteq> Inr (bar 80 78)
   \<and> written 2 (TextReporter_Report indefinite far_over
         (WithLegend TextReporterLegendProgressBar (NewTextReporter 2), empty_world))
       = Inl (Panic ''strings: negative Repeat count'')
   \<and> written 2 (TextReporter_Report indefinite far_over (NewTextReporter 2, empty_world))
       = Inl (Panic ''strings: negative Repeat count'')"
  by code_simp

text \<open>
  What the code does within its range. The width of the interior, \<^verbatim>\<open>r.pbWidth - 2\<close>, is
  64-bit arithmetic, and the bar is allocated: for a width from \<open>- 2\<^sup>6\<^sup>3 + 2\<close> on and an
  interior of at most \<open>maxAlloc\<close>, a width of at most 2 gives the empty string; otherwise,
  when the float product of the ratio (clamped to at least 0) and the interior is a
  number below \<open>2\<^sup>6\<^sup>3\<close>, the bar is \<^verbatim>\<open>[\<close>, \<open>fill\<close> times \<^verbatim>\<open>#\<close>, \<^verbatim>\<open>-\<close> up to the width,
  \<^verbatim>\<open>]\<close>, with \<open>fill\<close> the floor of the product clamped to the interior.
\<close>

lemma Repeat_char:
  assumes "0 \<le> n" "n \<le> maxAlloc"
  shows "Repeat [c] n = Inr (replicate (nat n) c)"
proof -
  consider "n = 0" | "n = 1" | "1 < n" using assms(1) by linarith
  then show ?thesis
  proof cases
    case 3
    then show ?thesis
      using assms(2) by (simp add: Repeat_def concat_replicate_single maxAlloc_def maxInt64_def)
  qed (simp_all add: Repeat_def)
qed

lemma ratio_times_width_nonneg:
  assumes "2 \<le> w" and "f64_val (ratio_times_width x w) = Some q"
  shows "0 \<le> q"
proof -
  let ?c = "if f64_lt x (Finite 0) then Finite 0 else x"
  let ?y = "f64_of_int (w - 2)"
  have y: "f64_nonneg ?y" using assms(1) by (intro f64_of_int_nonneg) simp
  consider (nan) "?c = NaN" | (nz) "?c = NegZero" | (nn) "f64_nonneg ?c"
    by (cases x) (auto simp: f64_lt_def f64_val_def f64_nonneg_def)
  then show ?thesis
  proof cases
    case nan
    then show ?thesis using assms(2) by (simp add: ratio_times_width_def f64_mul_def f64_val_def)
  next
    case nz
    show ?thesis
      using assms(2) y unfolding ratio_times_width_def nz
      by (auto simp: f64_mul_def f64_val_def f64_nonneg_def f64_signed_zero_def f64_is_neg_def
          split: if_splits)
  next
    case nn
    then have "f64_mul ?c ?y = NaN \<or> f64_nonneg (f64_mul ?c ?y)"
      using y by (rule f64_mul_nonneg)
    then show ?thesis
      using assms(2) unfolding ratio_times_width_def
      by (auto simp: f64_val_def dest: f64_nonneg_val)
  qed
qed

lemma render_fill:
  assumes w: "pbWidth r - 2 \<le> maxAlloc" "2 < pbWidth r"
    and v: "f64_val (ratio_times_width (Ratio rep) (pbWidth r)) = Some q" and q: "q < 2 ^ 63"
  shows "renderProgressBar impl r rep = Inr (bar (pbWidth r) (min (pbWidth r - 2) \<lfloor>q\<rfloor>))"
    and "0 \<le> \<lfloor>q\<rfloor>"
proof -
  define pw where "pw = pbWidth r - 2"
  define fl where "fl = \<lfloor>q\<rfloor>"
  have q0: "0 \<le> q" using w(2) v by (intro ratio_times_width_nonneg [of "pbWidth r"]) simp_all
  have f0: "0 \<le> fl" using q0 by (simp add: fl_def)
  show "0 \<le> \<lfloor>q\<rfloor>" using q0 by simp
  have "q < rat_of_int (2 ^ 63)" using q by simp
  then have "\<lfloor>q\<rfloor> < 2 ^ 63" by (simp only: floor_less_iff)
  then have f1: "fl < 9223372036854775808" by (simp add: fl_def)
  have i: "in_int64 fl" using f0 f1 by (simp add: in_int64_def minInt64_def maxInt64_def)
  have t: "trunc_rat q = fl" using q0 by (simp add: trunc_rat_def fl_def)
  have c: "f64_to_int64 impl (f64_mul (if f64_lt (Ratio rep) (Finite 0) then Finite 0 else Ratio rep)
              (f64_of_int pw)) = fl"
    using v i by (simp add: f64_to_int64_def t ratio_times_width_def pw_def)
  have p: "0 < pw" "pw \<le> maxAlloc" "in_int64 pw"
    using w by (simp_all add: pw_def in_int64_def minInt64_def maxInt64_def maxAlloc_def)
  define fill where "fill = min pw fl"
  have f: "0 \<le> fill" "fill \<le> maxAlloc" "0 \<le> pw - fill" "pw - fill \<le> maxAlloc"
    using p(1,2) f0 by (simp_all add: fill_def min_def)
  have fi: "in_int64 (pw - fill)"
    using f(3,4) by (simp add: in_int64_def minInt64_def maxInt64_def maxAlloc_def)
  have m: "(if pw < fl then pw else fl) = fill" by (simp add: fill_def)
  have "renderProgressBar impl r rep = Inr (bar (pw + 2) fill)"
    using p(1) f(3)
    unfolding renderProgressBar_def Let_def pw_def [symmetric] wrap64_id [OF p(3)] c m
      wrap64_id [OF fi]
    by (simp add: Repeat_char [OF f(1,2)] Repeat_char [OF f(3,4)] bind_err_def bar_def)
  then show "renderProgressBar impl r rep = Inr (bar (pbWidth r) (min (pbWidth r - 2) \<lfloor>q\<rfloor>))"
    by (simp add: pw_def fill_def fl_def)
qed

lemma render_narrow:
  assumes "in_int64 (pbWidth r - 2)" "pbWidth r \<le> 2"
  shows "renderProgressBar impl r rep = Inr []"
  using assms(2) unfolding renderProgressBar_def Let_def wrap64_id [OF assms(1)] by simp

lemma ratio_times_width_zero:
  assumes w: "in_int64 (w - 2)" "2 < w"
    and x: "x = NInf \<or> (\<exists>v. f64_val x = Some v \<and> v \<le> 0)"
  shows "f64_val (ratio_times_width x w) = Some 0"
proof -
  have "w - 2 \<le> 2 ^ 63" using w(1) by (simp add: in_int64_def maxInt64_def)
  then obtain b where b: "f64_of_int (w - 2) = Finite b"
    using f64_of_int_finite [of "w - 2"] w(2) by auto
  have "(if f64_lt x (Finite 0) then Finite 0 else x) = Finite 0
        \<or> (if f64_lt x (Finite 0) then Finite 0 else x) = NegZero"
    using x by (cases x) (auto simp: f64_lt_def f64_val_def)
  then show ?thesis
    unfolding ratio_times_width_def b
    by (auto simp: f64_mul_def f64_val_def f64_signed_zero_def f64_is_neg_def)
qed

lemma ratio_times_width_full:
  assumes w: "2 < w" "w - 2 \<le> 2 ^ 53"
    and x: "f64_val x = Some v" "1 \<le> v"
    and q: "f64_val (ratio_times_width x w) = Some q"
  shows "of_int (w - 2) \<le> q"
proof -
  have xv: "x = Finite v" using x by (cases x) (simp_all add: f64_val_def)
  have l: "\<not> f64_lt x (Finite 0)" using x(2) by (simp add: xv f64_lt_def f64_val_def)
  have y: "f64_of_int (w - 2) = Finite (of_int (w - 2))"
    using w by (intro f64_of_int_exact) simp
  have nz: "v * of_int (w - 2) \<noteq> 0" using x(2) w(1) by simp
  have c: "(if f64_lt x (Finite 0) then Finite 0 else x) = Finite v"
    using l xv by simp
  have p: "ratio_times_width x w = f64_round (v * of_int (w - 2))"
    unfolding ratio_times_width_def c y using nz by (simp add: f64_mul_def f64_val_def)
  have "rat_of_int (w - 2) \<le> v * of_int (w - 2)"
    using x(2) w(1) by (simp add: mult_le_cancel_right1)
  then have "f64_round (v * of_int (w - 2)) = PInf
      \<or> (\<exists>u. f64_round (v * of_int (w - 2)) = Finite u \<and> of_int (w - 2) \<le> u)"
    using w by (intro f64_round_ge_int) simp_all
  then show ?thesis
    using q unfolding p by (auto simp: f64_val_def)
qed

lemma bar_in_range:
  assumes "2 < pbWidth r" "pbWidth r - 2 \<le> maxAlloc"
    and "f64_val (ratio_times_width (Ratio rep) (pbWidth r)) = Some q" "q < 2 ^ 63"
  shows "renderProgressBar impl r rep
           = Inr (bar (pbWidth r) (max 0 (min (pbWidth r - 2) \<lfloor>q\<rfloor>)))"
proof -
  have "max 0 (min (pbWidth r - 2) \<lfloor>q\<rfloor>) = min (pbWidth r - 2) \<lfloor>q\<rfloor>"
    using render_fill(2) [OF assms(2,1,3,4)] assms(1) by simp
  then show ?thesis
    using render_fill(1) [OF assms(2,1,3,4)] by simp
qed

lemma bar_empty_ratio:
  assumes "2 < pbWidth r" "pbWidth r - 2 \<le> maxAlloc"
    and "Ratio rep = NInf \<or> (\<exists>v. f64_val (Ratio rep) = Some v \<and> v \<le> 0)"
  shows "renderProgressBar impl r rep = Inr (bar (pbWidth r) 0)"
proof -
  have i: "in_int64 (pbWidth r - 2)"
    using assms(1,2) by (simp add: in_int64_def minInt64_def maxInt64_def maxAlloc_def)
  have z: "f64_val (ratio_times_width (Ratio rep) (pbWidth r)) = Some 0"
    using i assms(1,3) by (rule ratio_times_width_zero)
  show ?thesis
    using render_fill(1) [OF assms(2,1) z] assms(1) by simp
qed

lemma bar_full_ratio:
  assumes "2 < pbWidth r" "pbWidth r - 2 \<le> maxAlloc"
    and "f64_val (Ratio rep) = Some v" "1 \<le> v"
    and "f64_val (ratio_times_width (Ratio rep) (pbWidth r)) = Some q" "q < 2 ^ 63"
  shows "renderProgressBar impl r rep = Inr (bar (pbWidth r) (pbWidth r - 2))"
proof -
  have "pbWidth r - 2 \<le> 2 ^ 53"
    using assms(2) by (simp add: maxAlloc_def)
  then have "of_int (pbWidth r - 2) \<le> q"
    using assms(1) assms(3-5) by (intro ratio_times_width_full [of "pbWidth r" "Ratio rep" v]) simp_all
  then have "pbWidth r - 2 \<le> \<lfloor>q\<rfloor>" by (simp only: le_floor_iff)
  then have "min (pbWidth r - 2) \<lfloor>q\<rfloor> = pbWidth r - 2" by simp
  then show ?thesis
    using render_fill(1) [OF assms(2,1,5,6)] by simp
qed

text \<open>
  The examples of the specification: the width 10 with the ratios \<open>1 / 2\<close>, 0 and
  \<open>3 / 2\<close>, and the width 2.
\<close>

lemma bar_examples:
  "renderProgressBar indefinite (WithProgressBarWidth 10 (NewTextReporter 2)) half_done
     = Inr ''[####----]''
   \<and> renderProgressBar indefinite (WithProgressBarWidth 10 (NewTextReporter 2))
        (fst (Progress_Report indefinite (clock 1000000000) (fresh 50 ()))) = Inr ''[--------]''
   \<and> renderProgressBar indefinite (WithProgressBarWidth 10 (NewTextReporter 2))
        (fst (Progress_Report indefinite (clock 1000000000) (Add 75 (fresh 50 ()))))
       = Inr ''[########]''
   \<and> renderProgressBar indefinite (WithProgressBarWidth 2 (NewTextReporter 2)) half_done = Inr []"
  by code_simp

text \<open>
  Outside that range: for the width \<open>- 2\<^sup>6\<^sup>3\<close> the subtraction \<^verbatim>\<open>r.pbWidth - 2\<close> wraps
  around to an interior of \<open>2\<^sup>6\<^sup>3 - 2\<close>, and for the width \<open>2\<^sup>4\<^sup>9 + 2\<close> and a tracker that
  is done the interior is \<open>2\<^sup>4\<^sup>9\<close>; in both cases the allocation of the \<^verbatim>\<open>#\<close> panics.
\<close>

lemma bar_not_allocated:
  "renderProgressBar indefinite (WithProgressBarWidth (- 9223372036854775808) (NewTextReporter 2))
     half_done = Inl (Panic ''runtime error: makeslice: len out of range'')
   \<and> renderProgressBar indefinite (WithProgressBarWidth 562949953421314 (NewTextReporter 2))
        (fst (Progress_Report indefinite (clock 1000000000) (Add 50 (fresh 50 ()))))
       = Inl (Panic ''runtime error: makeslice: len out of range'')"
  by code_simp

section \<open>Legends\<close>

subsection \<open>\<^verbatim>\<open>compileLegend\<close> on pieces\<close>

lemma replace_from_no_brace:
  assumes "CHR ''{'' \<notin> set t" "key = CHR ''{'' # k"
  shows "replace_from key new (t @ s) = t @ replace_from key new s"
  using assms(1)
proof (induction t)
  case Nil
  then show ?case by simp
next
  case (Cons c t)
  then have "\<not> prefix key (c # t @ s)" by (auto simp: assms(2))
  then show ?case
    using Cons by (subst replace_from.simps) (simp add: assms(2))
qed

lemma prefix_name_close:
  assumes "CHR ''}'' \<notin> set name" "CHR ''}'' \<notin> set b"
  shows "prefix (name @ ''}'') (b @ CHR ''}'' # s) \<longleftrightarrow> name = b"
  using assms
proof (induction name arbitrary: b)
  case Nil
  then show ?case by (cases b) auto
next
  case (Cons c name)
  then show ?case by (cases b) auto
qed

lemma replace_from_brace:
  assumes "CHR ''{'' \<notin> set name" "CHR ''}'' \<notin> set name" "CHR ''{'' \<notin> set b" "CHR ''}'' \<notin> set b"
  shows "replace_from (CHR ''{'' # name @ ''}'') new (CHR ''{'' # b @ CHR ''}'' # s)
         = (if b = name then new else CHR ''{'' # b @ ''}'') @ replace_from (CHR ''{'' # name @ ''}'') new s"
proof (cases "b = name")
  case True
  then show ?thesis
    by (subst replace_from.simps) simp
next
  case False
  let ?key = "CHR ''{'' # name @ ''}''"
  have np: "\<not> prefix ?key (CHR ''{'' # b @ CHR ''}'' # s)"
    using prefix_name_close [OF assms(2,4)] False by auto
  have 1: "replace_from ?key new (CHR ''{'' # b @ CHR ''}'' # s)
           = CHR ''{'' # replace_from ?key new (b @ CHR ''}'' # s)"
    using np by (subst replace_from.simps) simp
  have 2: "replace_from ?key new (b @ CHR ''}'' # s) = b @ replace_from ?key new (CHR ''}'' # s)"
    using assms(3) by (intro replace_from_no_brace) simp_all
  have 3: "replace_from ?key new (CHR ''}'' # s) = CHR ''}'' # replace_from ?key new s"
    by (subst replace_from.simps) simp
  show ?thesis using False by (simp add: 1 2 3)
qed

lemma replace_flat:
  assumes "list_all wf_piece ps" "CHR ''{'' \<notin> set name" "CHR ''}'' \<notin> set name"
  shows "replace_from (CHR ''{'' # name @ ''}'') (flat new) (flat ps) = flat (subst name new ps)"
  using assms(1)
proof (induction ps)
  case Nil
  then show ?case by (simp add: flat_def subst_def replace_from.simps)
next
  case (Cons p ps)
  then have ih: "replace_from (CHR ''{'' # name @ ''}'') (flat new) (flat ps) = flat (subst name new ps)"
    by simp
  show ?case
  proof (cases p)
    case (Lit t)
    then have "CHR ''{'' \<notin> set t" using Cons(2) by simp
    then have "replace_from (CHR ''{'' # name @ ''}'') (flat new) (t @ flat ps)
        = t @ replace_from (CHR ''{'' # name @ ''}'') (flat new) (flat ps)"
      by (intro replace_from_no_brace) simp_all
    then show ?thesis using ih Lit by (simp add: flat_def subst_def)
  next
    case (Br b)
    then have b: "CHR ''{'' \<notin> set b" "CHR ''}'' \<notin> set b" using Cons(2) by simp_all
    show ?thesis
      using replace_from_brace [OF assms(2,3) b, of "flat new" "flat ps"] ih Br
      by (auto simp: flat_def subst_def)
  qed
qed

lemma ReplaceAll_flat:
  assumes "list_all wf_piece ps" "CHR ''{'' \<notin> set name" "CHR ''}'' \<notin> set name"
    and "flat new \<noteq> CHR ''{'' # name @ ''}''"
  shows "ReplaceAll (flat ps) (CHR ''{'' # name @ ''}'') (flat new) = flat (subst name new ps)"
  using replace_flat [OF assms(1-3), of new] assms(4) by (simp add: ReplaceAll_def)

lemma subst_wf:
  "list_all wf_piece ps \<Longrightarrow> list_all wf_piece new \<Longrightarrow> list_all wf_piece (subst name new ps)"
  by (induction ps) (auto simp: subst_def)


lemma digit_char_digit: "digit_char d \<in> set ''0123456789''"
proof (cases "0 \<le> d \<and> d < 10")
  case True
  have l: "length ''0123456789'' = 10" by simp
  have "nat d < 10" using True by linarith
  then have "nat d < length ''0123456789''" by (simp only: l)
  then have "''0123456789'' ! nat d \<in> set ''0123456789''" by (rule nth_mem)
  moreover have "digit_char d = ''0123456789'' ! nat d"
    using True by (simp only: digit_char_def if_True simp_thms)
  ultimately show ?thesis by (simp only:)
next
  case False
  then have "digit_char d = CHR ''0''" by (simp only: digit_char_def if_False)
  then show ?thesis by simp
qed

lemma udigits_digits: "set (udigits n) \<subseteq> set ''0123456789''"
proof (induction n rule: udigits.induct)
  case (1 n)
  show ?case
  proof (cases "n < 10")
    case True
    then have "udigits n = [digit_char n]" by (subst udigits.simps) simp
    then show ?thesis using digit_char_digit [of n] by simp
  next
    case False
    then have "udigits n = udigits (n div 10) @ [digit_char (n mod 10)]"
      by (subst udigits.simps) simp
    then show ?thesis using 1 False digit_char_digit [of "n mod 10"] by simp
  qed
qed

lemma udigits_not_Nil: "udigits n \<noteq> []"
  by (subst udigits.simps) simp

lemma Itoa_no_brace: "CHR ''{'' \<notin> set (Itoa n)"
  using udigits_digits [of n] udigits_digits [of "- n"] by (auto simp: Itoa_def)

lemma Itoa_not_key: "Itoa n \<noteq> ''{float_precision}''"
  using Itoa_no_brace [of n] by auto

lemma compile_flat:
  assumes "list_all wf_piece ps"
  shows "compileLegend (flat ps) fp = flat (compile_pieces fp ps)"
proof -
  have f: "list_all wf_piece (float_verb i)" if "CHR ''{'' \<notin> set i" for i
    using that by (simp add: float_verb_def)
  have l: "flat [Lit t] = t" for t by (simp add: flat_def)
  have fv: "flat (float_verb i) = ''%.{float_precision}['' @ i @ '']f''" for i
    by (simp add: flat_def float_verb_def)
  note step = ReplaceAll_flat [where name = "''now''", simplified]
  define p1 where "p1 = subst ''now'' [Lit ''%[1]s''] ps"
  define p2 where "p2 = subst ''started_at'' [Lit ''%[2]s''] p1"
  define p3 where "p3 = subst ''dt'' [Lit ''%[3]s''] p2"
  define p4 where "p4 = subst ''total'' [Lit ''%[4]d''] p3"
  define p5 where "p5 = subst ''done'' [Lit ''%[5]d''] p4"
  define p6 where "p6 = subst ''left'' [Lit ''%[6]d''] p5"
  define p7 where "p7 = subst ''ratio'' (float_verb ''7'') p6"
  define p8 where "p8 = subst ''percent_int'' [Lit ''%[8]d''] p7"
  define p9 where "p9 = subst ''percent_float'' (float_verb ''9'') p8"
  define p10 where "p10 = subst ''elapsed'' [Lit ''%[10]s''] p9"
  define p11 where "p11 = subst ''eta'' [Lit ''%[11]s''] p10"
  define p12 where "p12 = subst ''rps_avg'' (float_verb ''12'') p11"
  define p13 where "p13 = subst ''rps_inst'' (float_verb ''13'') p12"
  define p14 where "p14 = subst ''rpm'' (float_verb ''14'') p13"
  define p15 where "p15 = subst ''progress_bar'' [Lit ''%[15]s''] p14"
  define p16 where "p16 = subst ''float_precision'' [Lit (Itoa fp)] p15"
  have w1: "list_all wf_piece p1" unfolding p1_def using assms by (intro subst_wf) simp_all
  have w2: "list_all wf_piece p2" unfolding p2_def using w1 by (intro subst_wf) simp_all
  have w3: "list_all wf_piece p3" unfolding p3_def using w2 by (intro subst_wf) simp_all
  have w4: "list_all wf_piece p4" unfolding p4_def using w3 by (intro subst_wf) simp_all
  have w5: "list_all wf_piece p5" unfolding p5_def using w4 by (intro subst_wf) simp_all
  have w6: "list_all wf_piece p6" unfolding p6_def using w5 by (intro subst_wf) simp_all
  have w7: "list_all wf_piece p7" unfolding p7_def using w6 by (intro subst_wf f) simp_all
  have w8: "list_all wf_piece p8" unfolding p8_def using w7 by (intro subst_wf) simp_all
  have w9: "list_all wf_piece p9" unfolding p9_def using w8 by (intro subst_wf f) simp_all
  have w10: "list_all wf_piece p10" unfolding p10_def using w9 by (intro subst_wf) simp_all
  have w11: "list_all wf_piece p11" unfolding p11_def using w10 by (intro subst_wf) simp_all
  have w12: "list_all wf_piece p12" unfolding p12_def using w11 by (intro subst_wf f) simp_all
  have w13: "list_all wf_piece p13" unfolding p13_def using w12 by (intro subst_wf f) simp_all
  have w14: "list_all wf_piece p14" unfolding p14_def using w13 by (intro subst_wf f) simp_all
  have w15: "list_all wf_piece p15" unfolding p15_def using w14 by (intro subst_wf) simp_all
  have r1: "ReplaceAll (flat ps) ''{now}'' ''%[1]s'' = flat p1"
    unfolding p1_def using ReplaceAll_flat [OF assms, of "''now''" "[Lit ''%[1]s'']"] by (simp add: l)
  have r2: "ReplaceAll (flat p1) ''{started_at}'' ''%[2]s'' = flat p2"
    unfolding p2_def using ReplaceAll_flat [OF w1, of "''started_at''" "[Lit ''%[2]s'']"] by (simp add: l)
  have r3: "ReplaceAll (flat p2) ''{dt}'' ''%[3]s'' = flat p3"
    unfolding p3_def using ReplaceAll_flat [OF w2, of "''dt''" "[Lit ''%[3]s'']"] by (simp add: l)
  have r4: "ReplaceAll (flat p3) ''{total}'' ''%[4]d'' = flat p4"
    unfolding p4_def using ReplaceAll_flat [OF w3, of "''total''" "[Lit ''%[4]d'']"] by (simp add: l)
  have r5: "ReplaceAll (flat p4) ''{done}'' ''%[5]d'' = flat p5"
    unfolding p5_def using ReplaceAll_flat [OF w4, of "''done''" "[Lit ''%[5]d'']"] by (simp add: l)
  have r6: "ReplaceAll (flat p5) ''{left}'' ''%[6]d'' = flat p6"
    unfolding p6_def using ReplaceAll_flat [OF w5, of "''left''" "[Lit ''%[6]d'']"] by (simp add: l)
  have r7: "ReplaceAll (flat p6) ''{ratio}'' ''%.{float_precision}[7]f'' = flat p7"
    unfolding p7_def using ReplaceAll_flat [OF w6, of "''ratio''" "float_verb ''7''"] by (simp add: fv)
  have r8: "ReplaceAll (flat p7) ''{percent_int}'' ''%[8]d'' = flat p8"
    unfolding p8_def using ReplaceAll_flat [OF w7, of "''percent_int''" "[Lit ''%[8]d'']"] by (simp add: l)
  have r9: "ReplaceAll (flat p8) ''{percent_float}'' ''%.{float_precision}[9]f'' = flat p9"
    unfolding p9_def using ReplaceAll_flat [OF w8, of "''percent_float''" "float_verb ''9''"] by (simp add: fv)
  have r10: "ReplaceAll (flat p9) ''{elapsed}'' ''%[10]s'' = flat p10"
    unfolding p10_def using ReplaceAll_flat [OF w9, of "''elapsed''" "[Lit ''%[10]s'']"] by (simp add: l)
  have r11: "ReplaceAll (flat p10) ''{eta}'' ''%[11]s'' = flat p11"
    unfolding p11_def using ReplaceAll_flat [OF w10, of "''eta''" "[Lit ''%[11]s'']"] by (simp add: l)
  have r12: "ReplaceAll (flat p11) ''{rps_avg}'' ''%.{float_precision}[12]f'' = flat p12"
    unfolding p12_def using ReplaceAll_flat [OF w11, of "''rps_avg''" "float_verb ''12''"] by (simp add: fv)
  have r13: "ReplaceAll (flat p12) ''{rps_inst}'' ''%.{float_precision}[13]f'' = flat p13"
    unfolding p13_def using ReplaceAll_flat [OF w12, of "''rps_inst''" "float_verb ''13''"] by (simp add: fv)
  have r14: "ReplaceAll (flat p13) ''{rpm}'' ''%.{float_precision}[14]f'' = flat p14"
    unfolding p14_def using ReplaceAll_flat [OF w13, of "''rpm''" "float_verb ''14''"] by (simp add: fv)
  have r15: "ReplaceAll (flat p14) ''{progress_bar}'' ''%[15]s'' = flat p15"
    unfolding p15_def using ReplaceAll_flat [OF w14, of "''progress_bar''" "[Lit ''%[15]s'']"] by (simp add: l)
  have r16: "ReplaceAll (flat p15) ''{float_precision}'' (Itoa fp) = flat p16"
    unfolding p16_def
    using ReplaceAll_flat [OF w15, of "''float_precision''" "[Lit (Itoa fp)]"] Itoa_not_key [of fp]
    by (simp add: l)
  have "compile_pieces fp ps = p16"
    by (simp only: compile_pieces_def Let_def p1_def p2_def p3_def p4_def p5_def p6_def p7_def
        p8_def p9_def p10_def p11_def p12_def p13_def p14_def p15_def p16_def)
  moreover have "compileLegend (flat ps) fp = flat p16"
    by (simp only: compileLegend_def Let_def r1 r2 r3 r4 r5 r6 r7 r8 r9 r10 r11 r12 r13 r14 r15 r16)
  ultimately show ?thesis by simp
qed


lemma bind_err_Inr_Inr:
  "bind_err (bind_err m (\<lambda>x. Inr (f x))) (\<lambda>y. Inr (g y)) = bind_err m (\<lambda>x. Inr (g (f x)))"
  by (cases m) (simp_all add: bind_err_def)

lemma doPrintf_char:
  "c \<noteq> CHR ''%'' \<Longrightarrow>
   doPrintf a n re (c # fmt) = bind_err (doPrintf a n re fmt) (\<lambda>out. Inr (c # out))"
  by (subst doPrintf.simps) simp

lemma doPrintf_plain:
  "CHR ''%'' \<notin> set t \<Longrightarrow>
   doPrintf a n re (t @ fmt) = bind_err (doPrintf a n re fmt) (\<lambda>out. Inr (t @ out))"
proof (induction t)
  case Nil
  show ?case by (cases "doPrintf a n re fmt") (simp_all add: bind_err_def)
next
  case (Cons c t)
  then have c: "c \<noteq> CHR ''%''" and ih: "doPrintf a n re (t @ fmt)
      = bind_err (doPrintf a n re fmt) (\<lambda>out. Inr (t @ out))"
    by auto
  show ?case
    using doPrintf_char [OF c, of a n re "t @ fmt"] by (simp add: ih bind_err_Inr_Inr)
qed

lemmas verb_defs = doVerb_def is_flag_def is_lower_def argNumber_def starts_with_def
  parseArgNumber_def digit_val_def precision_def is_ascii_def

lemma doPrintf_percent:
  "doPrintf a n re (''%%'' @ fmt) = bind_err (doPrintf a n re fmt) (\<lambda>out. Inr (''%'' @ out))"
  by (subst doPrintf.simps) (simp add: verb_defs bind_err_def split: sum.splits)

lemma digit_val_digit_char:
  assumes "0 \<le> d" "d < 10"
  shows "digit_val (digit_char d) = Some d"
proof -
  have "d = 0 \<or> d = 1 \<or> d = 2 \<or> d = 3 \<or> d = 4 \<or> d = 5 \<or> d = 6 \<or> d = 7 \<or> d = 8 \<or> d = 9"
    using assms by arith
  then show ?thesis
    by (elim disjE) (simp_all add: digit_char_def digit_val_def)
qed

lemma parsenum_udigits:
  "0 \<le> n \<Longrightarrow> n < 10000000 \<Longrightarrow> parsenum 0 False (udigits n @ r) = parsenum n True r"
proof (induction n arbitrary: r rule: udigits.induct)
  case (1 n)
  show ?case
  proof (cases "n < 10")
    case True
    then have u: "udigits n = [digit_char n]" by (subst udigits.simps) simp
    show ?thesis
      using True 1(2) by (simp add: u digit_val_digit_char)
  next
    case False
    then have u: "udigits n = udigits (n div 10) @ [digit_char (n mod 10)]"
      by (subst udigits.simps) simp
    have d: "digit_val (digit_char (n mod 10)) = Some (n mod 10)"
      by (intro digit_val_digit_char) simp_all
    have "parsenum 0 False (udigits (n div 10) @ digit_char (n mod 10) # r)
        = parsenum (n div 10) True (digit_char (n mod 10) # r)"
      using False 1(2,3) by (intro 1(1)) simp_all
    also have "\<dots> = parsenum n True r"
    proof -
      have "\<not> 1000000 < n div 10" using 1(3) by simp
      then show ?thesis by (simp add: d)
    qed
    finally show ?thesis by (simp add: u)
  qed
qed

lemma udigits_head:
  obtains d ds where "udigits n = d # ds" "d \<in> set ''0123456789''"
proof -
  obtain d ds where u: "udigits n = d # ds"
    using udigits_not_Nil [of n] by (cases "udigits n") auto
  then have "d \<in> set ''0123456789''" using udigits_digits [of n] by auto
  then show ?thesis using u that by blast
qed

lemma doPrintf_index_1:
  assumes "length a = 15"
  shows "doPrintf a n re (''%[1]s'' @ fmt)
     = bind_err (printArg (a ! 0) CHR ''s'' None)
         (\<lambda>txt. bind_err (doPrintf a (Suc 0) True fmt) (\<lambda>out. Inr (txt @ out)))"
  using assms
  by (subst doPrintf.simps) (simp add: verb_defs bind_err_def split: sum.splits)

lemma doPrintf_index_2:
  assumes "length a = 15"
  shows "doPrintf a n re (''%[2]s'' @ fmt)
     = bind_err (printArg (a ! 1) CHR ''s'' None)
         (\<lambda>txt. bind_err (doPrintf a (Suc 1) True fmt) (\<lambda>out. Inr (txt @ out)))"
  using assms
  by (subst doPrintf.simps) (simp add: verb_defs bind_err_def split: sum.splits)

lemma doPrintf_index_3:
  assumes "length a = 15"
  shows "doPrintf a n re (''%[3]s'' @ fmt)
     = bind_err (printArg (a ! 2) CHR ''s'' None)
         (\<lambda>txt. bind_err (doPrintf a (Suc 2) True fmt) (\<lambda>out. Inr (txt @ out)))"
  using assms
  by (subst doPrintf.simps) (simp add: verb_defs bind_err_def split: sum.splits)

lemma doPrintf_index_4:
  assumes "length a = 15"
  shows "doPrintf a n re (''%[4]d'' @ fmt)
     = bind_err (printArg (a ! 3) CHR ''d'' None)
         (\<lambda>txt. bind_err (doPrintf a (Suc 3) True fmt) (\<lambda>out. Inr (txt @ out)))"
  using assms
  by (subst doPrintf.simps) (simp add: verb_defs bind_err_def split: sum.splits)

lemma doPrintf_index_5:
  assumes "length a = 15"
  shows "doPrintf a n re (''%[5]d'' @ fmt)
     = bind_err (printArg (a ! 4) CHR ''d'' None)
         (\<lambda>txt. bind_err (doPrintf a (Suc 4) True fmt) (\<lambda>out. Inr (txt @ out)))"
  using assms
  by (subst doPrintf.simps) (simp add: verb_defs bind_err_def split: sum.splits)

lemma doPrintf_index_6:
  assumes "length a = 15"
  shows "doPrintf a n re (''%[6]d'' @ fmt)
     = bind_err (printArg (a ! 5) CHR ''d'' None)
         (\<lambda>txt. bind_err (doPrintf a (Suc 5) True fmt) (\<lambda>out. Inr (txt @ out)))"
  using assms
  by (subst doPrintf.simps) (simp add: verb_defs bind_err_def split: sum.splits)

lemma doPrintf_index_8:
  assumes "length a = 15"
  shows "doPrintf a n re (''%[8]d'' @ fmt)
     = bind_err (printArg (a ! 7) CHR ''d'' None)
         (\<lambda>txt. bind_err (doPrintf a (Suc 7) True fmt) (\<lambda>out. Inr (txt @ out)))"
  using assms
  by (subst doPrintf.simps) (simp add: verb_defs bind_err_def split: sum.splits)

lemma doPrintf_index_10:
  assumes "length a = 15"
  shows "doPrintf a n re (''%[10]s'' @ fmt)
     = bind_err (printArg (a ! 9) CHR ''s'' None)
         (\<lambda>txt. bind_err (doPrintf a (Suc 9) True fmt) (\<lambda>out. Inr (txt @ out)))"
  using assms
  by (subst doPrintf.simps) (simp add: verb_defs bind_err_def split: sum.splits)

lemma doPrintf_index_11:
  assumes "length a = 15"
  shows "doPrintf a n re (''%[11]s'' @ fmt)
     = bind_err (printArg (a ! 10) CHR ''s'' None)
         (\<lambda>txt. bind_err (doPrintf a (Suc 10) True fmt) (\<lambda>out. Inr (txt @ out)))"
  using assms
  by (subst doPrintf.simps) (simp add: verb_defs bind_err_def split: sum.splits)

lemma doPrintf_index_15:
  assumes "length a = 15"
  shows "doPrintf a n re (''%[15]s'' @ fmt)
     = bind_err (printArg (a ! 14) CHR ''s'' None)
         (\<lambda>txt. bind_err (doPrintf a (Suc 14) True fmt) (\<lambda>out. Inr (txt @ out)))"
  using assms
  by (subst doPrintf.simps) (simp add: verb_defs bind_err_def split: sum.splits)

lemma doPrintf_float_7:
  assumes "length a = 15" "0 \<le> fp" "fp < 10000000"
  shows "doPrintf a n re (''%.'' @ Itoa fp @ ''[7]f'' @ fmt)
     = bind_err (printArg (a ! 6) CHR ''f'' (Some (nat fp)))
         (\<lambda>txt. bind_err (doPrintf a (Suc 6) True fmt) (\<lambda>out. Inr (txt @ out)))"
proof -
  obtain d ds where u: "udigits fp = d # ds" and d: "d \<in> set ''0123456789''"
    by (rule udigits_head)
  have i: "Itoa fp = d # ds" using assms(2) by (simp add: Itoa_def u)
  define tail where "tail = ''[7]f'' @ fmt"
  have q: "parsenum fp True tail = (fp, True, tail)"
    by (simp add: tail_def digit_val_def)
  have "parsenum 0 False (udigits fp @ tail) = parsenum fp True tail"
    using assms(2,3) by (rule parsenum_udigits)
  then have p: "parsenum 0 False (d # ds @ tail) = (fp, True, tail)"
    by (simp only: u q append_Cons)
  note p' = p [unfolded tail_def append_Cons append_Nil]
  have d': "d \<noteq> CHR ''[''" "d \<noteq> CHR ''*''"
    using d by auto
  have ix: "parsenum 0 False ''7'' = (7, True, [])"
    by (simp add: digit_val_def)
  have v: "doVerb a n re (''.'' @ (d # ds) @ ''[7]f'' @ fmt)
      = bind_err (printArg (a ! 6) CHR ''f'' (Some (nat fp)))
          (\<lambda>out. Inr (out, Suc 6, True, fmt))"
    using assms(1) d' by (simp add: verb_defs p' ix Let_def bind_err_def del: parsenum.simps)
  have "drop (6 + length ds) ((CHR ''.'' # d # ds @ ''[7]f'') @ fmt) = fmt"
    by (subst drop_append) simp
  then have dr: "drop (6 + length ds) (CHR ''.'' # d # ds @ CHR ''['' # CHR ''7'' # CHR '']'' # CHR ''f'' # fmt) = fmt"
    by simp
  show ?thesis
    unfolding i
    by (subst doPrintf.simps) (simp add: v [simplified] dr bind_err_def split: sum.splits)
qed

lemma doPrintf_float_9:
  assumes "length a = 15" "0 \<le> fp" "fp < 10000000"
  shows "doPrintf a n re (''%.'' @ Itoa fp @ ''[9]f'' @ fmt)
     = bind_err (printArg (a ! 8) CHR ''f'' (Some (nat fp)))
         (\<lambda>txt. bind_err (doPrintf a (Suc 8) True fmt) (\<lambda>out. Inr (txt @ out)))"
proof -
  obtain d ds where u: "udigits fp = d # ds" and d: "d \<in> set ''0123456789''"
    by (rule udigits_head)
  have i: "Itoa fp = d # ds" using assms(2) by (simp add: Itoa_def u)
  define tail where "tail = ''[9]f'' @ fmt"
  have q: "parsenum fp True tail = (fp, True, tail)"
    by (simp add: tail_def digit_val_def)
  have "parsenum 0 False (udigits fp @ tail) = parsenum fp True tail"
    using assms(2,3) by (rule parsenum_udigits)
  then have p: "parsenum 0 False (d # ds @ tail) = (fp, True, tail)"
    by (simp only: u q append_Cons)
  note p' = p [unfolded tail_def append_Cons append_Nil]
  have d': "d \<noteq> CHR ''[''" "d \<noteq> CHR ''*''"
    using d by auto
  have ix: "parsenum 0 False ''9'' = (9, True, [])"
    by (simp add: digit_val_def)
  have v: "doVerb a n re (''.'' @ (d # ds) @ ''[9]f'' @ fmt)
      = bind_err (printArg (a ! 8) CHR ''f'' (Some (nat fp)))
          (\<lambda>out. Inr (out, Suc 8, True, fmt))"
    using assms(1) d' by (simp add: verb_defs p' ix Let_def bind_err_def del: parsenum.simps)
  have "drop (6 + length ds) ((CHR ''.'' # d # ds @ ''[9]f'') @ fmt) = fmt"
    by (subst drop_append) simp
  then have dr: "drop (6 + length ds) (CHR ''.'' # d # ds @ CHR ''['' # CHR ''9'' # CHR '']'' # CHR ''f'' # fmt) = fmt"
    by simp
  show ?thesis
    unfolding i
    by (subst doPrintf.simps) (simp add: v [simplified] dr bind_err_def split: sum.splits)
qed

lemma doPrintf_float_12:
  assumes "length a = 15" "0 \<le> fp" "fp < 10000000"
  shows "doPrintf a n re (''%.'' @ Itoa fp @ ''[12]f'' @ fmt)
     = bind_err (printArg (a ! 11) CHR ''f'' (Some (nat fp)))
         (\<lambda>txt. bind_err (doPrintf a (Suc 11) True fmt) (\<lambda>out. Inr (txt @ out)))"
proof -
  obtain d ds where u: "udigits fp = d # ds" and d: "d \<in> set ''0123456789''"
    by (rule udigits_head)
  have i: "Itoa fp = d # ds" using assms(2) by (simp add: Itoa_def u)
  define tail where "tail = ''[12]f'' @ fmt"
  have q: "parsenum fp True tail = (fp, True, tail)"
    by (simp add: tail_def digit_val_def)
  have "parsenum 0 False (udigits fp @ tail) = parsenum fp True tail"
    using assms(2,3) by (rule parsenum_udigits)
  then have p: "parsenum 0 False (d # ds @ tail) = (fp, True, tail)"
    by (simp only: u q append_Cons)
  note p' = p [unfolded tail_def append_Cons append_Nil]
  have d': "d \<noteq> CHR ''[''" "d \<noteq> CHR ''*''"
    using d by auto
  have ix: "parsenum 0 False ''12'' = (12, True, [])"
    by (simp add: digit_val_def)
  have v: "doVerb a n re (''.'' @ (d # ds) @ ''[12]f'' @ fmt)
      = bind_err (printArg (a ! 11) CHR ''f'' (Some (nat fp)))
          (\<lambda>out. Inr (out, Suc 11, True, fmt))"
    using assms(1) d' by (simp add: verb_defs p' ix Let_def bind_err_def del: parsenum.simps)
  have "drop (7 + length ds) ((CHR ''.'' # d # ds @ ''[12]f'') @ fmt) = fmt"
    by (subst drop_append) simp
  then have dr: "drop (7 + length ds) (CHR ''.'' # d # ds @ CHR ''['' # CHR ''1'' # CHR ''2'' # CHR '']'' # CHR ''f'' # fmt) = fmt"
    by simp
  show ?thesis
    unfolding i
    by (subst doPrintf.simps) (simp add: v [simplified] dr bind_err_def split: sum.splits)
qed

lemma doPrintf_float_13:
  assumes "length a = 15" "0 \<le> fp" "fp < 10000000"
  shows "doPrintf a n re (''%.'' @ Itoa fp @ ''[13]f'' @ fmt)
     = bind_err (printArg (a ! 12) CHR ''f'' (Some (nat fp)))
         (\<lambda>txt. bind_err (doPrintf a (Suc 12) True fmt) (\<lambda>out. Inr (txt @ out)))"
proof -
  obtain d ds where u: "udigits fp = d # ds" and d: "d \<in> set ''0123456789''"
    by (rule udigits_head)
  have i: "Itoa fp = d # ds" using assms(2) by (simp add: Itoa_def u)
  define tail where "tail = ''[13]f'' @ fmt"
  have q: "parsenum fp True tail = (fp, True, tail)"
    by (simp add: tail_def digit_val_def)
  have "parsenum 0 False (udigits fp @ tail) = parsenum fp True tail"
    using assms(2,3) by (rule parsenum_udigits)
  then have p: "parsenum 0 False (d # ds @ tail) = (fp, True, tail)"
    by (simp only: u q append_Cons)
  note p' = p [unfolded tail_def append_Cons append_Nil]
  have d': "d \<noteq> CHR ''[''" "d \<noteq> CHR ''*''"
    using d by auto
  have ix: "parsenum 0 False ''13'' = (13, True, [])"
    by (simp add: digit_val_def)
  have v: "doVerb a n re (''.'' @ (d # ds) @ ''[13]f'' @ fmt)
      = bind_err (printArg (a ! 12) CHR ''f'' (Some (nat fp)))
          (\<lambda>out. Inr (out, Suc 12, True, fmt))"
    using assms(1) d' by (simp add: verb_defs p' ix Let_def bind_err_def del: parsenum.simps)
  have "drop (7 + length ds) ((CHR ''.'' # d # ds @ ''[13]f'') @ fmt) = fmt"
    by (subst drop_append) simp
  then have dr: "drop (7 + length ds) (CHR ''.'' # d # ds @ CHR ''['' # CHR ''1'' # CHR ''3'' # CHR '']'' # CHR ''f'' # fmt) = fmt"
    by simp
  show ?thesis
    unfolding i
    by (subst doPrintf.simps) (simp add: v [simplified] dr bind_err_def split: sum.splits)
qed

lemma doPrintf_float_14:
  assumes "length a = 15" "0 \<le> fp" "fp < 10000000"
  shows "doPrintf a n re (''%.'' @ Itoa fp @ ''[14]f'' @ fmt)
     = bind_err (printArg (a ! 13) CHR ''f'' (Some (nat fp)))
         (\<lambda>txt. bind_err (doPrintf a (Suc 13) True fmt) (\<lambda>out. Inr (txt @ out)))"
proof -
  obtain d ds where u: "udigits fp = d # ds" and d: "d \<in> set ''0123456789''"
    by (rule udigits_head)
  have i: "Itoa fp = d # ds" using assms(2) by (simp add: Itoa_def u)
  define tail where "tail = ''[14]f'' @ fmt"
  have q: "parsenum fp True tail = (fp, True, tail)"
    by (simp add: tail_def digit_val_def)
  have "parsenum 0 False (udigits fp @ tail) = parsenum fp True tail"
    using assms(2,3) by (rule parsenum_udigits)
  then have p: "parsenum 0 False (d # ds @ tail) = (fp, True, tail)"
    by (simp only: u q append_Cons)
  note p' = p [unfolded tail_def append_Cons append_Nil]
  have d': "d \<noteq> CHR ''[''" "d \<noteq> CHR ''*''"
    using d by auto
  have ix: "parsenum 0 False ''14'' = (14, True, [])"
    by (simp add: digit_val_def)
  have v: "doVerb a n re (''.'' @ (d # ds) @ ''[14]f'' @ fmt)
      = bind_err (printArg (a ! 13) CHR ''f'' (Some (nat fp)))
          (\<lambda>out. Inr (out, Suc 13, True, fmt))"
    using assms(1) d' by (simp add: verb_defs p' ix Let_def bind_err_def del: parsenum.simps)
  have "drop (7 + length ds) ((CHR ''.'' # d # ds @ ''[14]f'') @ fmt) = fmt"
    by (subst drop_append) simp
  then have dr: "drop (7 + length ds) (CHR ''.'' # d # ds @ CHR ''['' # CHR ''1'' # CHR ''4'' # CHR '']'' # CHR ''f'' # fmt) = fmt"
    by simp
  show ?thesis
    unfolding i
    by (subst doPrintf.simps) (simp add: v [simplified] dr bind_err_def split: sum.splits)
qed

subsection \<open>One segment of the legend\<close>


lemma subst_append: "subst name new (xs @ ys) = subst name new xs @ subst name new ys"
  by (simp add: subst_def)

lemma compile_pieces_append:
  "compile_pieces fp (xs @ ys) = compile_pieces fp xs @ compile_pieces fp ys"
  by (simp add: compile_pieces_def Let_def subst_append)

lemma compile_pieces_Nil: "compile_pieces fp [] = []"
  by (simp add: compile_pieces_def subst_def)

lemma compile_pieces_Cons: "compile_pieces fp (p # ps) = compile_pieces fp [p] @ compile_pieces fp ps"
  using compile_pieces_append [of fp "[p]" ps] by simp

lemma flat_append: "flat (xs @ ys) = flat xs @ flat ys"
  by (simp add: flat_def)

lemma legend_of_flat: "legend_of segs = flat (map piece_of segs)"
proof -
  have "seg_text s = piece_text (piece_of s)" for s by (cases s) simp_all
  then show ?thesis by (induction segs) (simp_all add: legend_of_def flat_def)
qed

lemma wf_piece_of: "wf_seg s \<Longrightarrow> wf_piece (piece_of s)"
  by (cases s) simp_all

lemma length_operands: "length (operands rep pb) = 15"
  by (simp add: operands_def)

lemma verb_step:
  assumes "doPrintf a n re f0
      = bind_err (printArg x v p)
          (\<lambda>txt. bind_err (doPrintf a k True fmt) (\<lambda>out. Inr (txt @ out)))"
    and "printArg x v p = Inr e"
  shows "\<exists>n'. doPrintf a n re f0
      = bind_err (doPrintf a n' True fmt) (\<lambda>out. Inr (e @ out))"
  using assms by (auto simp: bind_err_def)

lemmas compile_defs = compile_pieces_def subst_def float_verb_def flat_def Let_def

lemma step_now:
  shows "\<exists>n'. doPrintf (operands rep pb) n re (flat (compile_pieces fp [Br ''now'']) @ fmt)
      = bind_err (doPrintf (operands rep pb) n' True fmt)
          (\<lambda>out. Inr (expansion (nat fp) pb rep ''now'' @ out))"
proof -
  have c: "flat (compile_pieces fp [Br ''now'']) = ''%[1]s''"
    by (simp add: compile_defs)
  have e: "printArg (operands rep pb ! 0) CHR ''s'' None = Inr (expansion (nat fp) pb rep ''now'')"
    by (simp add: operands_def printArg_def expansion_def)
  show ?thesis
    unfolding c append_assoc by (rule verb_step [OF doPrintf_index_1 [OF length_operands] e])
qed

lemma step_started_at:
  shows "\<exists>n'. doPrintf (operands rep pb) n re (flat (compile_pieces fp [Br ''started_at'']) @ fmt)
      = bind_err (doPrintf (operands rep pb) n' True fmt)
          (\<lambda>out. Inr (expansion (nat fp) pb rep ''started_at'' @ out))"
proof -
  have c: "flat (compile_pieces fp [Br ''started_at'']) = ''%[2]s''"
    by (simp add: compile_defs)
  have e: "printArg (operands rep pb ! 1) CHR ''s'' None = Inr (expansion (nat fp) pb rep ''started_at'')"
    by (simp add: operands_def printArg_def expansion_def)
  show ?thesis
    unfolding c append_assoc by (rule verb_step [OF doPrintf_index_2 [OF length_operands] e])
qed

lemma step_dt:
  shows "\<exists>n'. doPrintf (operands rep pb) n re (flat (compile_pieces fp [Br ''dt'']) @ fmt)
      = bind_err (doPrintf (operands rep pb) n' True fmt)
          (\<lambda>out. Inr (expansion (nat fp) pb rep ''dt'' @ out))"
proof -
  have c: "flat (compile_pieces fp [Br ''dt'']) = ''%[3]s''"
    by (simp add: compile_defs)
  have e: "printArg (operands rep pb ! 2) CHR ''s'' None = Inr (expansion (nat fp) pb rep ''dt'')"
    by (simp add: operands_def printArg_def expansion_def)
  show ?thesis
    unfolding c append_assoc by (rule verb_step [OF doPrintf_index_3 [OF length_operands] e])
qed

lemma step_total:
  shows "\<exists>n'. doPrintf (operands rep pb) n re (flat (compile_pieces fp [Br ''total'']) @ fmt)
      = bind_err (doPrintf (operands rep pb) n' True fmt)
          (\<lambda>out. Inr (expansion (nat fp) pb rep ''total'' @ out))"
proof -
  have c: "flat (compile_pieces fp [Br ''total'']) = ''%[4]d''"
    by (simp add: compile_defs)
  have e: "printArg (operands rep pb ! 3) CHR ''d'' None = Inr (expansion (nat fp) pb rep ''total'')"
    by (simp add: operands_def printArg_def expansion_def)
  show ?thesis
    unfolding c append_assoc by (rule verb_step [OF doPrintf_index_4 [OF length_operands] e])
qed

lemma step_done:
  shows "\<exists>n'. doPrintf (operands rep pb) n re (flat (compile_pieces fp [Br ''done'']) @ fmt)
      = bind_err (doPrintf (operands rep pb) n' True fmt)
          (\<lambda>out. Inr (expansion (nat fp) pb rep ''done'' @ out))"
proof -
  have c: "flat (compile_pieces fp [Br ''done'']) = ''%[5]d''"
    by (simp add: compile_defs)
  have e: "printArg (operands rep pb ! 4) CHR ''d'' None = Inr (expansion (nat fp) pb rep ''done'')"
    by (simp add: operands_def printArg_def expansion_def)
  show ?thesis
    unfolding c append_assoc by (rule verb_step [OF doPrintf_index_5 [OF length_operands] e])
qed

lemma step_left:
  shows "\<exists>n'. doPrintf (operands rep pb) n re (flat (compile_pieces fp [Br ''left'']) @ fmt)
      = bind_err (doPrintf (operands rep pb) n' True fmt)
          (\<lambda>out. Inr (expansion (nat fp) pb rep ''left'' @ out))"
proof -
  have c: "flat (compile_pieces fp [Br ''left'']) = ''%[6]d''"
    by (simp add: compile_defs)
  have e: "printArg (operands rep pb ! 5) CHR ''d'' None = Inr (expansion (nat fp) pb rep ''left'')"
    by (simp add: operands_def printArg_def expansion_def)
  show ?thesis
    unfolding c append_assoc by (rule verb_step [OF doPrintf_index_6 [OF length_operands] e])
qed

lemma step_ratio:
  assumes "0 \<le> fp" "fp < 10000000"
  shows "\<exists>n'. doPrintf (operands rep pb) n re (flat (compile_pieces fp [Br ''ratio'']) @ fmt)
      = bind_err (doPrintf (operands rep pb) n' True fmt)
          (\<lambda>out. Inr (expansion (nat fp) pb rep ''ratio'' @ out))"
proof -
  have c: "flat (compile_pieces fp [Br ''ratio'']) = ''%.'' @ Itoa fp @ ''[7]f''"
    by (simp add: compile_defs)
  have e: "printArg (operands rep pb ! 6) CHR ''f'' (Some (nat fp)) = Inr (expansion (nat fp) pb rep ''ratio'')"
    by (simp add: operands_def printArg_def expansion_def)
  show ?thesis
    unfolding c append_assoc by (rule verb_step [OF doPrintf_float_7 [OF length_operands assms] e])
qed

lemma step_percent_int:
  shows "\<exists>n'. doPrintf (operands rep pb) n re (flat (compile_pieces fp [Br ''percent_int'']) @ fmt)
      = bind_err (doPrintf (operands rep pb) n' True fmt)
          (\<lambda>out. Inr (expansion (nat fp) pb rep ''percent_int'' @ out))"
proof -
  have c: "flat (compile_pieces fp [Br ''percent_int'']) = ''%[8]d''"
    by (simp add: compile_defs)
  have e: "printArg (operands rep pb ! 7) CHR ''d'' None = Inr (expansion (nat fp) pb rep ''percent_int'')"
    by (simp add: operands_def printArg_def expansion_def)
  show ?thesis
    unfolding c append_assoc by (rule verb_step [OF doPrintf_index_8 [OF length_operands] e])
qed

lemma step_percent_float:
  assumes "0 \<le> fp" "fp < 10000000"
  shows "\<exists>n'. doPrintf (operands rep pb) n re (flat (compile_pieces fp [Br ''percent_float'']) @ fmt)
      = bind_err (doPrintf (operands rep pb) n' True fmt)
          (\<lambda>out. Inr (expansion (nat fp) pb rep ''percent_float'' @ out))"
proof -
  have c: "flat (compile_pieces fp [Br ''percent_float'']) = ''%.'' @ Itoa fp @ ''[9]f''"
    by (simp add: compile_defs)
  have e: "printArg (operands rep pb ! 8) CHR ''f'' (Some (nat fp)) = Inr (expansion (nat fp) pb rep ''percent_float'')"
    by (simp add: operands_def printArg_def expansion_def)
  show ?thesis
    unfolding c append_assoc by (rule verb_step [OF doPrintf_float_9 [OF length_operands assms] e])
qed

lemma step_elapsed:
  shows "\<exists>n'. doPrintf (operands rep pb) n re (flat (compile_pieces fp [Br ''elapsed'']) @ fmt)
      = bind_err (doPrintf (operands rep pb) n' True fmt)
          (\<lambda>out. Inr (expansion (nat fp) pb rep ''elapsed'' @ out))"
proof -
  have c: "flat (compile_pieces fp [Br ''elapsed'']) = ''%[10]s''"
    by (simp add: compile_defs)
  have e: "printArg (operands rep pb ! 9) CHR ''s'' None = Inr (expansion (nat fp) pb rep ''elapsed'')"
    by (simp add: operands_def printArg_def expansion_def)
  show ?thesis
    unfolding c append_assoc by (rule verb_step [OF doPrintf_index_10 [OF length_operands] e])
qed

lemma step_eta:
  shows "\<exists>n'. doPrintf (operands rep pb) n re (flat (compile_pieces fp [Br ''eta'']) @ fmt)
      = bind_err (doPrintf (operands rep pb) n' True fmt)
          (\<lambda>out. Inr (expansion (nat fp) pb rep ''eta'' @ out))"
proof -
  have c: "flat (compile_pieces fp [Br ''eta'']) = ''%[11]s''"
    by (simp add: compile_defs)
  have e: "printArg (operands rep pb ! 10) CHR ''s'' None = Inr (expansion (nat fp) pb rep ''eta'')"
    by (simp add: operands_def printArg_def expansion_def)
  show ?thesis
    unfolding c append_assoc by (rule verb_step [OF doPrintf_index_11 [OF length_operands] e])
qed

lemma step_rps_avg:
  assumes "0 \<le> fp" "fp < 10000000"
  shows "\<exists>n'. doPrintf (operands rep pb) n re (flat (compile_pieces fp [Br ''rps_avg'']) @ fmt)
      = bind_err (doPrintf (operands rep pb) n' True fmt)
          (\<lambda>out. Inr (expansion (nat fp) pb rep ''rps_avg'' @ out))"
proof -
  have c: "flat (compile_pieces fp [Br ''rps_avg'']) = ''%.'' @ Itoa fp @ ''[12]f''"
    by (simp add: compile_defs)
  have e: "printArg (operands rep pb ! 11) CHR ''f'' (Some (nat fp)) = Inr (expansion (nat fp) pb rep ''rps_avg'')"
    by (simp add: operands_def printArg_def expansion_def)
  show ?thesis
    unfolding c append_assoc by (rule verb_step [OF doPrintf_float_12 [OF length_operands assms] e])
qed

lemma step_rps_inst:
  assumes "0 \<le> fp" "fp < 10000000"
  shows "\<exists>n'. doPrintf (operands rep pb) n re (flat (compile_pieces fp [Br ''rps_inst'']) @ fmt)
      = bind_err (doPrintf (operands rep pb) n' True fmt)
          (\<lambda>out. Inr (expansion (nat fp) pb rep ''rps_inst'' @ out))"
proof -
  have c: "flat (compile_pieces fp [Br ''rps_inst'']) = ''%.'' @ Itoa fp @ ''[13]f''"
    by (simp add: compile_defs)
  have e: "printArg (operands rep pb ! 12) CHR ''f'' (Some (nat fp)) = Inr (expansion (nat fp) pb rep ''rps_inst'')"
    by (simp add: operands_def printArg_def expansion_def)
  show ?thesis
    unfolding c append_assoc by (rule verb_step [OF doPrintf_float_13 [OF length_operands assms] e])
qed

lemma step_rpm:
  assumes "0 \<le> fp" "fp < 10000000"
  shows "\<exists>n'. doPrintf (operands rep pb) n re (flat (compile_pieces fp [Br ''rpm'']) @ fmt)
      = bind_err (doPrintf (operands rep pb) n' True fmt)
          (\<lambda>out. Inr (expansion (nat fp) pb rep ''rpm'' @ out))"
proof -
  have c: "flat (compile_pieces fp [Br ''rpm'']) = ''%.'' @ Itoa fp @ ''[14]f''"
    by (simp add: compile_defs)
  have e: "printArg (operands rep pb ! 13) CHR ''f'' (Some (nat fp)) = Inr (expansion (nat fp) pb rep ''rpm'')"
    by (simp add: operands_def printArg_def expansion_def)
  show ?thesis
    unfolding c append_assoc by (rule verb_step [OF doPrintf_float_14 [OF length_operands assms] e])
qed

lemma step_progress_bar:
  shows "\<exists>n'. doPrintf (operands rep pb) n re (flat (compile_pieces fp [Br ''progress_bar'']) @ fmt)
      = bind_err (doPrintf (operands rep pb) n' True fmt)
          (\<lambda>out. Inr (expansion (nat fp) pb rep ''progress_bar'' @ out))"
proof -
  have c: "flat (compile_pieces fp [Br ''progress_bar'']) = ''%[15]s''"
    by (simp add: compile_defs)
  have e: "printArg (operands rep pb ! 14) CHR ''s'' None = Inr (expansion (nat fp) pb rep ''progress_bar'')"
    by (simp add: operands_def printArg_def expansion_def)
  show ?thesis
    unfolding c append_assoc by (rule verb_step [OF doPrintf_index_15 [OF length_operands] e])
qed

lemma Itoa_no_percent: "CHR ''%'' \<notin> set (Itoa n)"
proof -
  have "CHR ''%'' \<notin> set (udigits k)" for k
    using udigits_digits [of k] by auto
  then show ?thesis by (simp add: Itoa_def)
qed

lemma step_precision:
  assumes "0 \<le> fp"
  shows "doPrintf (operands rep pb) n re (flat (compile_pieces fp [Br ''float_precision'']) @ fmt)
      = bind_err (doPrintf (operands rep pb) n re fmt)
          (\<lambda>out. Inr (expansion (nat fp) pb rep ''float_precision'' @ out))"
proof -
  have c: "flat (compile_pieces fp [Br ''float_precision'']) = Itoa fp"
    by (simp add: compile_defs)
  have e: "expansion (nat fp) pb rep ''float_precision'' = Itoa fp"
    using assms by (simp add: expansion_def)
  show ?thesis
    unfolding c e using Itoa_no_percent by (rule doPrintf_plain)
qed

lemma step_other:
  assumes "b \<notin> set placeholder_names" "b \<noteq> ''float_precision''" "CHR ''%'' \<notin> set b"
  shows "doPrintf (operands rep pb) n re (flat (compile_pieces fp [Br b]) @ fmt)
      = bind_err (doPrintf (operands rep pb) n re fmt)
          (\<lambda>out. Inr (expansion (nat fp) pb rep b @ out))"
proof -
  have c: "flat (compile_pieces fp [Br b]) = CHR ''{'' # b @ ''}''"
    using assms(1,2) by (simp add: compile_defs placeholder_names_def)
  have e: "expansion (nat fp) pb rep b = CHR ''{'' # b @ ''}''"
    using assms(1,2) by (simp add: expansion_def placeholder_names_def)
  have "CHR ''%'' \<notin> set (CHR ''{'' # b @ ''}'')"
    using assms(3) by simp
  then show ?thesis
    unfolding c e by (rule doPrintf_plain)
qed

lemma seg_step:
  assumes "wf_seg s" "0 \<le> fp" "fp < 10000000"
  shows "\<exists>n'. doPrintf (operands rep pb) n re (flat (compile_pieces fp [piece_of s]) @ fmt)
      = bind_err (doPrintf (operands rep pb) n' (re \<or> is_placeholder s) fmt)
          (\<lambda>out. Inr (seg_out (nat fp) pb rep s @ out))"
proof (cases s)
  case (Plain t)
  have c: "flat (compile_pieces fp [Lit t]) = t"
    by (simp add: compile_defs)
  have "CHR ''%'' \<notin> set t"
    using assms(1) Plain by simp
  then have "doPrintf (operands rep pb) n re (t @ fmt)
      = bind_err (doPrintf (operands rep pb) n re fmt) (\<lambda>out. Inr (t @ out))"
    by (rule doPrintf_plain)
  then show ?thesis
    by (auto simp: Plain c)
next
  case Percent
  have c: "flat (compile_pieces fp [Lit ''%%'']) = ''%%''"
    by (simp add: compile_defs)
  have "doPrintf (operands rep pb) n re (''%%'' @ fmt)
      = bind_err (doPrintf (operands rep pb) n re fmt) (\<lambda>out. Inr (''%'' @ out))"
    by (rule doPrintf_percent)
  then show ?thesis
    unfolding Percent piece_of.simps c seg_out.simps is_placeholder.simps by auto
next
  case (Brace b)
  show ?thesis
  proof (cases "b \<in> set placeholder_names")
    case False
    have "doPrintf (operands rep pb) n re (flat (compile_pieces fp [Br b]) @ fmt)
        = bind_err (doPrintf (operands rep pb) n re fmt)
            (\<lambda>out. Inr (expansion (nat fp) pb rep b @ out))"
    proof (cases "b = ''float_precision''")
      case True
      then show ?thesis using assms(2) by (simp only: step_precision)
    next
      case other: False
      then show ?thesis using False assms(1) Brace by (intro step_other) simp_all
    qed
    then show ?thesis
      using False by (auto simp: Brace)
  next
    case True
    have "\<exists>n'. doPrintf (operands rep pb) n re (flat (compile_pieces fp [Br b]) @ fmt)
        = bind_err (doPrintf (operands rep pb) n' True fmt)
            (\<lambda>out. Inr (expansion (nat fp) pb rep b @ out))"
      using True assms(2,3)
      unfolding placeholder_names_def set_simps insert_iff empty_iff
      by (elim disjE FalseE; simp only:) (rule 
step_now step_started_at step_dt step_total step_done step_left step_ratio step_percent_int step_percent_float step_elapsed step_eta step_rps_avg step_rps_inst step_rpm step_progress_bar | assumption)+
    then show ?thesis
      using True by (simp add: Brace)
  qed
qed

lemma bind_err_id: "bind_err m (\<lambda>out. Inr out) = m"
  by (cases m) (simp_all add: bind_err_def)

lemma bind_err_app:
  "bind_err (bind_err m (\<lambda>out. Inr (v @ out))) (\<lambda>out. Inr (u @ out))
     = bind_err m (\<lambda>out. Inr ((u @ v) @ out))"
  by (cases m) (simp_all add: bind_err_def)

lemma segs_render:
  assumes "list_all wf_seg segs" "0 \<le> fp" "fp < 10000000"
  shows "\<exists>n'. doPrintf (operands rep pb) n re (flat (compile_pieces fp (map piece_of segs)) @ fmt)
      = bind_err (doPrintf (operands rep pb) n' (re \<or> list_ex is_placeholder segs) fmt)
          (\<lambda>out. Inr (concat (map (seg_out (nat fp) pb rep) segs) @ out))"
  using assms(1)
proof (induction segs arbitrary: n re)
  case Nil
  show ?case
    by (rule exI [of _ n]) (simp add: compile_pieces_Nil flat_def bind_err_id)
next
  case (Cons s segs)
  from Cons.prems have s: "wf_seg s" and w: "list_all wf_seg segs"
    by simp_all
  let ?tail = "flat (compile_pieces fp (map piece_of segs)) @ fmt"
  obtain n1 where 1: "doPrintf (operands rep pb) n re (flat (compile_pieces fp [piece_of s]) @ ?tail)
      = bind_err (doPrintf (operands rep pb) n1 (re \<or> is_placeholder s) ?tail)
          (\<lambda>out. Inr (seg_out (nat fp) pb rep s @ out))"
    using seg_step [OF s assms(2,3), where rep = rep and pb = pb and n = n and re = re
        and fmt = "?tail"]
    by (elim exE) (rule that)
  obtain n2 where 2: "doPrintf (operands rep pb) n1 (re \<or> is_placeholder s) ?tail
      = bind_err (doPrintf (operands rep pb) n2
                    ((re \<or> is_placeholder s) \<or> list_ex is_placeholder segs) fmt)
          (\<lambda>out. Inr (concat (map (seg_out (nat fp) pb rep) segs) @ out))"
    using Cons.IH [OF w, of n1 "re \<or> is_placeholder s"] by (elim exE) (rule that)
  have f: "flat (compile_pieces fp (map piece_of (s # segs))) @ fmt
      = flat (compile_pieces fp [piece_of s]) @ ?tail"
    by (simp add: compile_pieces_Cons [of fp "piece_of s" "map piece_of segs"] flat_append)
  have "doPrintf (operands rep pb) n re (flat (compile_pieces fp (map piece_of (s # segs))) @ fmt)
      = bind_err (doPrintf (operands rep pb) n2
                    ((re \<or> is_placeholder s) \<or> list_ex is_placeholder segs) fmt)
          (\<lambda>out. Inr ((seg_out (nat fp) pb rep s @ concat (map (seg_out (nat fp) pb rep) segs)) @ out))"
    by (simp only: f 1 2 bind_err_app)
  then show ?case
    by (intro exI [of _ n2]) (simp add: disj_assoc)
qed

lemma Sprintf_legend:
  assumes "list_all wf_seg segs" "list_ex is_placeholder segs" "0 \<le> fp" "fp < 10000000"
  shows "Sprintf (compileLegend (legend_of segs) fp) (operands rep pb)
      = Inr (concat (map (seg_out (nat fp) pb rep) segs))"
proof -
  have "list_all wf_piece (map piece_of segs)"
    using assms(1) by (induction segs) (simp_all add: wf_piece_of)
  then have c: "compileLegend (legend_of segs) fp = flat (compile_pieces fp (map piece_of segs))"
    unfolding legend_of_flat by (rule compile_flat)
  obtain n' where "doPrintf (operands rep pb) 0 False
        (flat (compile_pieces fp (map piece_of segs)) @ [])
      = bind_err (doPrintf (operands rep pb) n' (False \<or> list_ex is_placeholder segs) [])
          (\<lambda>out. Inr (concat (map (seg_out (nat fp) pb rep) segs) @ out))"
    using segs_render [OF assms(1,3,4), where rep = rep and pb = pb and n = 0 and re = False
        and fmt = "[]"]
    by (elim exE) (rule that)
  then show ?thesis
    using assms(2) by (simp add: Sprintf_def c doPrintf.simps bind_err_def)
qed


lemma compiled_not_Nil:
  assumes "list_all wf_seg segs" "list_ex is_placeholder segs" "0 \<le> fp" "fp < 10000000"
  shows "compileLegend (legend_of segs) fp \<noteq> []"
proof
  assume "compileLegend (legend_of segs) fp = []"
  then have "doPrintf (operands rep pb) 0 False [] = Inr (concat (map (seg_out (nat fp) pb rep) segs))"
    for rep pb
    using Sprintf_legend [OF assms, of rep pb] by (simp add: Sprintf_def)
  then show False
    by (simp add: doPrintf.simps length_operands)
qed






text \<open>
  The percent sign in a brace-delimited text is read by \<^verbatim>\<open>Sprintf\<close>: \<^verbatim>\<open>{100%%}\<close> is
  written as \<^verbatim>\<open>{100%}\<close>. For a legend with no placeholder \<^verbatim>\<open>Sprintf\<close> reports the
  operands that were not used, where the model stops.
\<close>

lemma legend_percent_in_braces:
  "written 2 (TextReporter_Report indefinite half_done
      (WithLegend ''{100%%}{done}'' (NewTextReporter 2), empty_world)) = Inr ''{100%}25''"
  by code_simp

lemma legend_without_placeholder:
  "written 2 (TextReporter_Report indefinite half_done
      (WithLegend ''{foo}'' (NewTextReporter 2), empty_world)) = Inl (Unsupported ''EXTRA'')"
  by code_simp

end
